theory Spec2Isabelle
  imports Main
begin

section \<open>JavaScript strings and values\<close>

text \<open>
  The server is TypeScript; its strings are sequences of UTF-16 code units. The model uses
  \<^typ>\<open>string\<close>, one \<^typ>\<open>char\<close> per code unit, which covers the code units
  U+0000 to U+00FF; a lone surrogate, the one input on which \<^verbatim>\<open>encodeURIComponent\<close>
  throws, lies outside of them. An object is an association list; an argument bag lists its keys
  in the engine's own-property order, an object built by the server lists them in the
  order of their first assignment, and nothing below depends on where the engine puts
  integer-like keys. Property names are ordinary keys (no member of
  \<^verbatim>\<open>Object.prototype\<close>).
\<close>

definition truthy :: "string option \<Rightarrow> bool" where
  \<comment> \<open>truthiness of an optional string property: \<^verbatim>\<open>undefined\<close> and the empty string are falsy\<close>
  "truthy v = (case v of None \<Rightarrow> False | Some s \<Rightarrow> s \<noteq> [])"

fun str_or :: "string option \<Rightarrow> string \<Rightarrow> string" where
  \<comment> \<open>\<^verbatim>\<open>a || b\<close> on an optional string \<^verbatim>\<open>a\<close>\<close>
  "str_or None d = d"
| "str_or (Some s) d = (if s = [] then d else s)"

fun split :: "char \<Rightarrow> string \<Rightarrow> string list" where
  \<comment> \<open>\<^verbatim>\<open>s.split(sep)\<close> for a one-character separator\<close>
  "split sep [] = [[]]"
| "split sep (c # cs) =
     (if c = sep then [] # split sep cs
      else (c # hd (split sep cs)) # tl (split sep cs))"

fun join :: "string \<Rightarrow> string list \<Rightarrow> string" where
  \<comment> \<open>\<^verbatim>\<open>parts.join(sep)\<close>\<close>
  "join sep [] = []"
| "join sep [p] = p"
| "join sep (p # q # ps) = p @ sep @ join sep (q # ps)"

definition startsWith :: "string \<Rightarrow> string \<Rightarrow> bool" where
  "startsWith s p = (take (length p) s = p)"

definition endsWith :: "string \<Rightarrow> string \<Rightarrow> bool" where
  "endsWith s p = (length p \<le> length s \<and> drop (length s - length p) s = p)"

definition slice :: "string \<Rightarrow> int \<Rightarrow> int \<Rightarrow> string" where
  \<comment> \<open>\<^verbatim>\<open>s.slice(start, end)\<close>: negative indices count from the end, both are clamped\<close>
  "slice s start end =
     (let len = int (length s);
          from = (if start < 0 then max (len + start) 0 else min start len);
          to = (if end < 0 then max (len + end) 0 else min end len)
      in take (nat (to - from)) (drop (nat from) s))"

definition isAlnum :: "char \<Rightarrow> bool" where
  \<comment> \<open>the character class \<^verbatim>\<open>[a-zA-Z0-9]\<close>\<close>
  "isAlnum c = (let n = (of_char c :: nat) in
     (48 \<le> n \<and> n \<le> 57) \<or> (65 \<le> n \<and> n \<le> 90) \<or> (97 \<le> n \<and> n \<le> 122))"

definition toLowerCase_char :: "char \<Rightarrow> char" where
  \<comment> \<open>lower-case mapping of one code unit below U+0100: A..Z, and U+00C0..U+00DE without U+00D7\<close>
  "toLowerCase_char c = (let n = (of_char c :: nat) in
     if (65 \<le> n \<and> n \<le> 90) \<or> (192 \<le> n \<and> n \<le> 222 \<and> n \<noteq> 215)
     then char_of (n + 32) else c)"

definition toLowerCase :: "string \<Rightarrow> string" where
  "toLowerCase s = map toLowerCase_char s"

definition toUpperCase_char :: "char \<Rightarrow> string" where
  \<comment> \<open>upper-case mapping of one code unit below U+0100: a..z, U+00E0..U+00FE without U+00F7,
      and U+00DF, which becomes two letters; the upper-case forms of U+00B5 and U+00FF lie
      above U+00FF, outside the modelled code units\<close>
  "toUpperCase_char c = (let n = (of_char c :: nat) in
     if n = 223 then ''SS''
     else if (97 \<le> n \<and> n \<le> 122) \<or> (224 \<le> n \<and> n \<le> 254 \<and> n \<noteq> 247)
     then [char_of (n - 32)] else [c])"

definition toUpperCase :: "string \<Rightarrow> string" where
  "toUpperCase s = concat (map toUpperCase_char s)"

section \<open>The API description\<close>

record parameter =
  name :: string
  param_in :: string
  param_type :: "string option"
  param_schema_type :: "string option"
  param_description :: "string option"
  required :: bool

record operation =
  operationId :: "string option"
  summary :: "string option"
  op_description :: "string option"
  parameters :: "parameter list option"

section \<open>Type mapper\<close>

definition mapSwaggerType :: "string \<Rightarrow> string" where
  "mapSwaggerType swaggerType =
     (if swaggerType = ''integer'' then ''number''
      else if swaggerType = ''boolean'' then ''boolean''
      else if swaggerType = ''array'' then ''array''
      else if swaggerType = ''object'' then ''object''
      else ''string'')"

section \<open>Tool name generator\<close>

definition pathPart :: "string \<Rightarrow> string" where
  \<comment> \<open>the function mapped over the non-empty path parts in \<^verbatim>\<open>generateToolName\<close>\<close>
  "pathPart part =
     (if startsWith part ''{'' \<and> endsWith part ''}''
      then ''by_'' @ slice part 1 (- 1)
      else map (\<lambda>c. if isAlnum c then c else CHR ''_'') part)"

definition generateToolName :: "string \<Rightarrow> string \<Rightarrow> string \<Rightarrow> operation \<Rightarrow> string" where
  "generateToolName prefix method path operation =
     (if truthy (operationId operation) then prefix @ the (operationId operation)
      else
        let pathParts = map pathPart (filter (\<lambda>part. part \<noteq> []) (split CHR ''/'' path));
            methodName = toLowerCase method
        in prefix @ methodName @ ''_'' @ join ''_'' pathParts)"

section \<open>Argument values\<close>

text \<open>
  An argument bag arrives as parsed JSON. Numbers are modelled by the integers, printed in
  decimal as the engine prints integers of ordinary size; every other number is outside
  the model.
\<close>

datatype json =
    JNull
  | JBool bool
  | JNum int
  | JStr string
  | JArr "json list"
  | JObj "(string \<times> json) list"

type_synonym obj = "(string \<times> json) list"

fun show_nat :: "nat \<Rightarrow> string" where
  "show_nat n =
     (if n < 10 then [char_of (48 + n)]
      else show_nat (n div 10) @ [char_of (48 + n mod 10)])"

declare show_nat.simps [simp del]

definition show_int :: "int \<Rightarrow> string" where
  "show_int i = (if i < 0 then CHR ''-'' # show_nat (nat (- i)) else show_nat (nat i))"

fun toString :: "json \<Rightarrow> string" where
  \<comment> \<open>the string conversion applied by \<^verbatim>\<open>encodeURIComponent\<close> to its argument\<close>
  "toString JNull = ''null''"
| "toString (JBool b) = (if b then ''true'' else ''false'')"
| "toString (JNum n) = show_int n"
| "toString (JStr s) = s"
| "toString (JArr xs) =
     join '','' (map (\<lambda>x. if x = JNull then [] else toString x) xs)"
| "toString (JObj kvs) = ''[object Object]''"

fun indexed :: "nat \<Rightarrow> 'a list \<Rightarrow> (string \<times> 'a) list" where
  "indexed i [] = []"
| "indexed i (x # xs) = (show_nat i, x) # indexed (Suc i) xs"

fun own_enumerable :: "json \<Rightarrow> obj" where
  \<comment> \<open>the own enumerable properties \<^verbatim>\<open>Object.assign\<close> copies from a source value\<close>
  "own_enumerable (JObj kvs) = kvs"
| "own_enumerable (JArr xs) = indexed 0 xs"
| "own_enumerable (JStr s) = indexed 0 (map (\<lambda>c. JStr [c]) s)"
| "own_enumerable v = []"

fun obj_set :: "(string \<times> 'v) list \<Rightarrow> string \<Rightarrow> 'v \<Rightarrow> (string \<times> 'v) list" where
  \<comment> \<open>\<^verbatim>\<open>o[k] = v\<close>: an existing key keeps its place, a new key is added at the end\<close>
  "obj_set [] k v = [(k, v)]"
| "obj_set ((k', v') # kvs) k v =
     (if k' = k then (k, v) # kvs else (k', v') # obj_set kvs k v)"

definition Object_assign :: "obj \<Rightarrow> json \<Rightarrow> obj" where
  "Object_assign target source =
     foldl (\<lambda>t kv. obj_set t (fst kv) (snd kv)) target (own_enumerable source)"

definition Object_keys :: "(string \<times> 'v) list \<Rightarrow> string list" where
  "Object_keys ob = map fst ob"

section \<open>Percent-encoding and replacement\<close>

definition hexDigit :: "nat \<Rightarrow> char" where
  "hexDigit n = ''0123456789ABCDEF'' ! (n mod 16)"

definition pctByte :: "nat \<Rightarrow> string" where
  "pctByte b = [CHR ''%'', hexDigit (b div 16), hexDigit b]"

definition utf8 :: "char \<Rightarrow> nat list" where
  \<comment> \<open>UTF-8 bytes of a code point below U+0100\<close>
  "utf8 c = (let n = (of_char c :: nat) in
     if n < 128 then [n] else [192 + n div 64, 128 + n mod 64])"

definition pctEncode :: "(char \<Rightarrow> bool) \<Rightarrow> string \<Rightarrow> string" where
  \<comment> \<open>percent-encode the UTF-8 bytes of every character of the given set\<close>
  "pctEncode encodeSet s =
     concat (map (\<lambda>c. if encodeSet c then concat (map pctByte (utf8 c)) else [c]) s)"

definition uriUnreserved :: "char \<Rightarrow> bool" where
  \<comment> \<open>the characters \<^verbatim>\<open>encodeURIComponent\<close> leaves alone\<close>
  "uriUnreserved c = (isAlnum c \<or> c \<in> set ''-_.!~*()'' \<or> c = CHR 0x27)"

definition encodeURIComponent :: "string \<Rightarrow> string" where
  "encodeURIComponent s = pctEncode (\<lambda>c. \<not> uriUnreserved c) s"

fun indexOf :: "string \<Rightarrow> string \<Rightarrow> nat option" where
  "indexOf [] pat = (if pat = [] then Some 0 else None)"
| "indexOf (c # cs) pat =
     (if startsWith (c # cs) pat then Some 0 else map_option Suc (indexOf cs pat))"

fun getSubstitution :: "string \<Rightarrow> string \<Rightarrow> string \<Rightarrow> string \<Rightarrow> string" where
  \<comment> \<open>expansion of the dollar patterns of a replacement string; a string pattern has no captures\<close>
  "getSubstitution matched preceding following (c # d # r) =
     (if c = CHR ''$'' \<and> d = CHR ''$'' then CHR ''$'' # getSubstitution matched preceding following r
      else if c = CHR ''$'' \<and> d = CHR ''&'' then matched @ getSubstitution matched preceding following r
      else if c = CHR ''$'' \<and> d = CHR 0x60 then preceding @ getSubstitution matched preceding following r
      else if c = CHR ''$'' \<and> d = CHR 0x27 then following @ getSubstitution matched preceding following r
      else c # getSubstitution matched preceding following (d # r))"
| "getSubstitution matched preceding following r = r"

definition replace :: "string \<Rightarrow> string \<Rightarrow> string \<Rightarrow> string" where
  \<comment> \<open>\<^verbatim>\<open>s.replace(pattern, replacement)\<close> with a string pattern: the first occurrence only\<close>
  "replace s pat replacement =
     (case indexOf s pat of
        None \<Rightarrow> s
      | Some i \<Rightarrow>
          let preceding = take i s; following = drop (i + length pat) s
          in preceding @ getSubstitution pat preceding following replacement @ following)"

section \<open>The platform's URL objects\<close>

text \<open>
  \<^verbatim>\<open>buildUrl\<close> goes through the platform's \<^verbatim>\<open>URL\<close> class, which follows the URL Standard.
  A URL record has the standard's components: scheme, credentials, host (absent in a URL
  without authority), port, path, query and fragment. A path is either a list of segments or
  opaque (as in \<^verbatim>\<open>mailto:a@b\<close>); an opaque path is kept as the one element of \<open>url_path\<close>.

  The \<^verbatim>\<open>pathname\<close> accessors and the serializer are modelled for every URL record: dot segments
  are resolved, a backslash separates segments in the special schemes, the drive letter
  rules apply to \<^verbatim>\<open>file\<close>, and the path percent-encode set is applied as the engine under the
  server applies it (it leaves \<^verbatim>\<open>^\<close> alone in a path).

  The constructor is modelled on the URLs \<^verbatim>\<open>scheme://host[:port][/path][?query][#fragment]\<close>
  of the schemes \<^verbatim>\<open>http\<close>, \<^verbatim>\<open>https\<close>, \<^verbatim>\<open>ws\<close>, \<^verbatim>\<open>wss\<close> and \<^verbatim>\<open>ftp\<close> whose host is a plain domain
  name (letters, digits, hyphen, underscore, non-empty labels, neither \<^verbatim>\<open>xn--\<close> labels nor a
  numeric last label) or an IPv4 address in dotted decimal notation. On every other input
  (credentials, other hosts and schemes, rejected inputs) the result is the platform's own,
  a parameter of the model: \<open>URL_ctor\<close> stands for \<^verbatim>\<open>new URL(input)\<close> and \<open>URL_resolve\<close> for
  \<^verbatim>\<open>new URL(input, base)\<close>.
\<close>

record js_response =
  status :: nat
  resp_data :: json

record js_error =
  message :: string
  response :: "js_response option"

definition TypeError :: "string \<Rightarrow> js_error" where
  "TypeError msg = \<lparr>message = msg, response = None\<rparr>"

definition Error :: "string \<Rightarrow> js_error" where
  "Error msg = \<lparr>message = msg, response = None\<rparr>"

record url =
  scheme :: string
  username :: string
  password :: string
  host :: "string option"
  port :: "nat option"
  opaque :: bool
  url_path :: "string list"
  query :: "string option"
  fragment :: "string option"

record platform =
  URL_ctor :: "string \<Rightarrow> js_error + url"
  URL_resolve :: "string \<Rightarrow> string \<Rightarrow> js_error + url"

definition isC0OrSpace :: "char \<Rightarrow> bool" where
  "isC0OrSpace c = ((of_char c :: nat) \<le> 32)"

definition isTabOrNewline :: "char \<Rightarrow> bool" where
  "isTabOrNewline c = (c = CHR 0x09 \<or> c = CHR 0x0A \<or> c = CHR 0x0D)"

definition c0ControlSet :: "char \<Rightarrow> bool" where
  "c0ControlSet c = (let n = (of_char c :: nat) in n \<le> 31 \<or> 126 < n)"

definition fragmentSet :: "char \<Rightarrow> bool" where
  "fragmentSet c =
     (c0ControlSet c \<or> c = CHR 0x20 \<or> c = CHR 0x22 \<or> c = CHR ''<'' \<or> c = CHR ''>'' \<or> c = CHR 0x60)"

definition querySet :: "char \<Rightarrow> bool" where
  "querySet c =
     (c0ControlSet c \<or> c = CHR 0x20 \<or> c = CHR 0x22 \<or> c = CHR ''#'' \<or> c = CHR ''<'' \<or> c = CHR ''>'')"

definition specialQuerySet :: "char \<Rightarrow> bool" where
  "specialQuerySet c = (querySet c \<or> c = CHR 0x27)"

definition pathSet :: "char \<Rightarrow> bool" where
  "pathSet c = (querySet c \<or> c = CHR ''?'' \<or> c = CHR 0x60 \<or> c = CHR ''{'' \<or> c = CHR ''}'')"

definition isDigit :: "char \<Rightarrow> bool" where
  "isDigit c = (let n = (of_char c :: nat) in 48 \<le> n \<and> n \<le> 57)"

definition isAlpha :: "char \<Rightarrow> bool" where
  "isAlpha c = (let n = (of_char c :: nat) in (65 \<le> n \<and> n \<le> 90) \<or> (97 \<le> n \<and> n \<le> 122))"

definition isHexDigit :: "char \<Rightarrow> bool" where
  "isHexDigit c = (isDigit c \<or> c \<in> set ''abcdefABCDEF'')"

definition isSpecial :: "string \<Rightarrow> bool" where
  \<comment> \<open>the special schemes\<close>
  "isSpecial sch = (sch \<in> set [''ftp'', ''file'', ''http'', ''https'', ''ws'', ''wss''])"

definition isSeparator :: "string \<Rightarrow> char \<Rightarrow> bool" where
  \<comment> \<open>the characters that end a path segment in a URL of the given scheme\<close>
  "isSeparator sch c = (c = CHR ''/'' \<or> (isSpecial sch \<and> c = CHR 0x5C))"

definition isSingleDot :: "string \<Rightarrow> bool" where
  "isSingleDot b = (b = ''.'' \<or> toLowerCase b = ''%2e'')"

definition isDoubleDot :: "string \<Rightarrow> bool" where
  "isDoubleDot b =
     (b = ''..'' \<or> toLowerCase b = ''.%2e'' \<or> toLowerCase b = ''%2e.'' \<or> toLowerCase b = ''%2e%2e'')"

definition isDriveLetter :: "string \<Rightarrow> bool" where
  \<comment> \<open>a Windows drive letter: a letter followed by a colon or a bar\<close>
  "isDriveLetter b =
     (case b of [a, c] \<Rightarrow> isAlpha a \<and> (c = CHR '':'' \<or> c = CHR ''|'') | _ \<Rightarrow> False)"

definition isNormalizedDrive :: "string \<Rightarrow> bool" where
  "isNormalizedDrive b = (case b of [a, c] \<Rightarrow> isAlpha a \<and> c = CHR '':'' | _ \<Rightarrow> False)"

definition shorten :: "string \<Rightarrow> string list \<Rightarrow> string list" where
  \<comment> \<open>removal of the last segment; the drive letter of a \<^verbatim>\<open>file\<close> URL stays\<close>
  "shorten sch path =
     (if sch = ''file'' \<and> (case path of [d] \<Rightarrow> isNormalizedDrive d | _ \<Rightarrow> False) then path
      else butlast path)"

definition segmentEnd :: "string \<Rightarrow> string list \<Rightarrow> string \<Rightarrow> bool \<Rightarrow> string list" where
  \<comment> \<open>the path state at a separator (\<open>sep\<close>) or at the end of the path\<close>
  "segmentEnd sch path buffer sep =
     (if isDoubleDot buffer then (if sep then shorten sch path else shorten sch path @ [[]])
      else if isSingleDot buffer then (if sep then path else path @ [[]])
      else if sch = ''file'' \<and> path = [] \<and> isDriveLetter buffer then [[hd buffer, CHR '':'']]
      else path @ [buffer])"

fun pathState :: "string \<Rightarrow> string list \<Rightarrow> string \<Rightarrow> string \<Rightarrow> string list" where
  "pathState sch path buffer [] = segmentEnd sch path buffer False"
| "pathState sch path buffer (c # cs) =
     (if isSeparator sch c then pathState sch (segmentEnd sch path buffer True) [] cs
      else pathState sch path (buffer @ pctEncode pathSet [c]) cs)"

definition pathStart :: "string \<Rightarrow> bool \<Rightarrow> string \<Rightarrow> string list" where
  \<comment> \<open>the path start state entered by the \<^verbatim>\<open>pathname\<close> setter and after an authority: one
      leading separator is consumed; of an empty input a special URL keeps one empty
      segment, another URL keeps one only if it has no host\<close>
  "pathStart sch hostless input =
     (case input of
        [] \<Rightarrow> if isSpecial sch \<or> hostless then [[]] else []
      | c # cs \<Rightarrow>
          if isSeparator sch c then pathState sch [] [] cs else pathState sch [] [] (c # cs))"

definition pathname :: "url \<Rightarrow> string" where
  "pathname u =
     (if opaque u then concat (url_path u)
      else concat (map (\<lambda>seg. CHR ''/'' # seg) (url_path u)))"

definition set_pathname :: "url \<Rightarrow> string \<Rightarrow> url" where
  \<comment> \<open>assignment to \<^verbatim>\<open>pathname\<close>: nothing happens to an opaque path; otherwise the value
      is parsed from the path start state\<close>
  "set_pathname u v =
     (if opaque u then u
      else u\<lparr>url_path :=
               pathStart (scheme u) (host u = None) (filter (\<lambda>c. \<not> isTabOrNewline c) v)\<rparr>)"

definition schemeAndAuthority :: "url \<Rightarrow> string" where
  \<comment> \<open>what the serializer writes before the path of a URL\<close>
  "schemeAndAuthority u =
     scheme u @ '':''
     @ (case host u of
          None \<Rightarrow> []
        | Some h \<Rightarrow>
            ''//''
            @ (if username u \<noteq> [] \<or> password u \<noteq> []
               then username u @ (if password u \<noteq> [] then CHR '':'' # password u else []) @ ''@''
               else [])
            @ h
            @ (case port u of None \<Rightarrow> [] | Some p \<Rightarrow> CHR '':'' # show_nat p))"

definition searchAndHash :: "url \<Rightarrow> string" where
  \<comment> \<open>what the serializer writes after the path of a URL\<close>
  "searchAndHash u =
     (case query u of None \<Rightarrow> [] | Some q \<Rightarrow> CHR ''?'' # q)
     @ (case fragment u of None \<Rightarrow> [] | Some f \<Rightarrow> CHR ''#'' # f)"

definition href :: "url \<Rightarrow> string" where
  \<comment> \<open>the serializer behind \<^verbatim>\<open>toString()\<close>; without a host, a path that begins with an
      empty segment is kept apart from an authority by \<^verbatim>\<open>/.\<close>\<close>
  "href u =
     schemeAndAuthority u
     @ (if host u = None \<and> \<not> opaque u \<and> 1 < length (url_path u) \<and> hd (url_path u) = []
        then ''/.'' else [])
     @ pathname u
     @ searchAndHash u"

definition trimInput :: "string \<Rightarrow> string" where
  "trimInput s =
     filter (\<lambda>c. \<not> isTabOrNewline c)
       (dropWhile isC0OrSpace (rev (dropWhile isC0OrSpace (rev s))))"

definition read_nat :: "string \<Rightarrow> nat" where
  "read_nat ds = foldl (\<lambda>n c. 10 * n + (of_char c - 48)) 0 ds"

definition isNumberLabel :: "string \<Rightarrow> bool" where
  \<comment> \<open>a last label that makes the host parser read the host as an IPv4 address\<close>
  "isNumberLabel l =
     (l \<noteq> [] \<and> (list_all isDigit l
        \<or> (startsWith (toLowerCase l) ''0x'' \<and> list_all isHexDigit (drop 2 l))))"

definition validLabel :: "string \<Rightarrow> bool" where
  "validLabel l =
     (l \<noteq> [] \<and> list_all (\<lambda>c. isAlnum c \<or> c = CHR ''-'' \<or> c = CHR ''_'') l
      \<and> \<not> startsWith (toLowerCase l) ''xn--'')"

definition plainDomain :: "string \<Rightarrow> bool" where
  "plainDomain h =
     (let labels = split CHR ''.'' h
      in list_all validLabel labels \<and> \<not> isNumberLabel (last labels))"

definition dottedDecimal :: "string \<Rightarrow> bool" where
  \<comment> \<open>four decimal numbers up to 255, without leading zeros, separated by dots\<close>
  "dottedDecimal h =
     (let parts = split CHR ''.'' h
      in length parts = 4
         \<and> list_all (\<lambda>p. p \<noteq> [] \<and> list_all isDigit p \<and> (length p = 1 \<or> hd p \<noteq> CHR ''0'')
                          \<and> read_nat p \<le> 255) parts)"

definition defaultPort :: "string \<Rightarrow> nat" where
  "defaultPort sch =
     (if sch = ''http'' \<or> sch = ''ws'' then 80
      else if sch = ''https'' \<or> sch = ''wss'' then 443
      else 21)"

definition parseAuthority :: "string \<Rightarrow> string \<Rightarrow> (string \<times> nat option) option" where
  \<comment> \<open>host and port of an authority without credentials\<close>
  "parseAuthority sch auth =
     (let h = takeWhile (\<lambda>c. c \<noteq> CHR '':'') auth;
          p = drop 1 (dropWhile (\<lambda>c. c \<noteq> CHR '':'') auth)
      in if \<not> (plainDomain h \<or> dottedDecimal h) \<or> \<not> list_all isDigit p then None
         else if p = [] then Some (toLowerCase h, None)
         else if 65535 < read_nat p then None
         else Some (toLowerCase h,
                    if read_nat p = defaultPort sch then None else Some (read_nat p)))"

definition parseQueryFragment :: "url \<Rightarrow> string \<Rightarrow> url" where
  \<comment> \<open>the query and fragment states of a special URL, entered at a leading \<^verbatim>\<open>?\<close> or \<^verbatim>\<open>#\<close>\<close>
  "parseQueryFragment u rest =
     (case rest of
        [] \<Rightarrow> u
      | c # cs \<Rightarrow>
          if c = CHR ''?'' then
            (let q = takeWhile (\<lambda>c. c \<noteq> CHR ''#'') cs;
                 r = dropWhile (\<lambda>c. c \<noteq> CHR ''#'') cs;
                 u' = u\<lparr>query := Some (pctEncode specialQuerySet q)\<rparr>
             in if r = [] then u' else u'\<lparr>fragment := Some (pctEncode fragmentSet (drop 1 r))\<rparr>)
          else u\<lparr>fragment := Some (pctEncode fragmentSet cs)\<rparr>)"

definition isPathEnd :: "char \<Rightarrow> bool" where
  "isPathEnd c = (c = CHR ''?'' \<or> c = CHR ''#'')"

definition parsePlain :: "string \<Rightarrow> url option" where
  \<comment> \<open>the constructor on the URLs that the model parses itself\<close>
  "parsePlain input =
     (let s = trimInput input;
          sch = toLowerCase (takeWhile (\<lambda>c. c \<noteq> CHR '':'') s);
          rest = dropWhile (\<lambda>c. c \<noteq> CHR '':'') s;
          r = drop 3 rest;
          auth = takeWhile (\<lambda>c. \<not> (c = CHR ''/'' \<or> c = CHR 0x5C \<or> isPathEnd c)) r;
          tail = dropWhile (\<lambda>c. \<not> (c = CHR ''/'' \<or> c = CHR 0x5C \<or> isPathEnd c)) r
      in if sch \<in> set [''http'', ''https'', ''ws'', ''wss'', ''ftp''] \<and> startsWith rest ''://'' then
           (case parseAuthority sch auth of
              None \<Rightarrow> None
            | Some hp \<Rightarrow>
                Some (parseQueryFragment
                       \<lparr>scheme = sch, username = [], password = [], host = Some (fst hp),
                        port = snd hp, opaque = False,
                        url_path = pathStart sch False (takeWhile (\<lambda>c. \<not> isPathEnd c) tail),
                        query = None, fragment = None\<rparr>
                       (dropWhile (\<lambda>c. \<not> isPathEnd c) tail)))
         else None)"

definition URL_new :: "platform \<Rightarrow> string \<Rightarrow> js_error + url" where
  \<comment> \<open>\<^verbatim>\<open>new URL(input)\<close>\<close>
  "URL_new P input =
     (case parsePlain input of Some u \<Rightarrow> Inr u | None \<Rightarrow> URL_ctor P input)"

definition hasScheme :: "string \<Rightarrow> bool" where
  "hasScheme s =
     (case s of
        [] \<Rightarrow> False
      | c # cs \<Rightarrow>
          isAlpha c \<and>
          startsWith
            (dropWhile (\<lambda>c. isAlnum c \<or> c = CHR ''+'' \<or> c = CHR ''-'' \<or> c = CHR ''.'') cs) '':'')"

definition resolvePlain :: "string \<Rightarrow> url \<Rightarrow> url option" where
  \<comment> \<open>a reference without scheme and authority, resolved against a base URL of a special
      scheme other than \<^verbatim>\<open>file\<close>\<close>
  "resolvePlain input b =
     (let s = trimInput input;
          p = takeWhile (\<lambda>c. \<not> isPathEnd c) s;
          qf = dropWhile (\<lambda>c. \<not> isPathEnd c) s
      in if \<not> isSpecial (scheme b) \<or> scheme b = ''file'' \<or> opaque b \<or> hasScheme s then None
         else if s = [] then Some (b\<lparr>fragment := None\<rparr>)
         else if startsWith s ''/'' \<or> startsWith s [CHR 0x5C] then
           (if startsWith (drop 1 s) ''/'' \<or> startsWith (drop 1 s) [CHR 0x5C] then None
            else Some (parseQueryFragment
                         (b\<lparr>url_path := pathState (scheme b) [] [] (drop 1 p),
                            query := None, fragment := None\<rparr>)
                         qf))
         else if startsWith s ''?'' then Some (parseQueryFragment (b\<lparr>fragment := None\<rparr>) s)
         else if startsWith s ''#'' then Some (parseQueryFragment (b\<lparr>fragment := None\<rparr>) s)
         else Some (parseQueryFragment
                      (b\<lparr>url_path := pathState (scheme b) (butlast (url_path b)) [] p,
                         query := None, fragment := None\<rparr>)
                      qf))"

definition URL_new_base :: "platform \<Rightarrow> string \<Rightarrow> string \<Rightarrow> js_error + url" where
  \<comment> \<open>\<^verbatim>\<open>new URL(input, base)\<close>: the base is parsed first\<close>
  "URL_new_base P input base =
     (case URL_new P base of
        Inl e \<Rightarrow> Inl e
      | Inr b \<Rightarrow>
          (case resolvePlain input b of
             Some u \<Rightarrow> Inr u
           | None \<Rightarrow> URL_resolve P input base))"

section \<open>The server\<close>

record ServerConfig =
  swaggerUrl :: "string option"
  swaggerFile :: "string option"
  toolPrefix :: "string option"
  baseUrl :: "string option"
  ignoreSsl :: bool
  authHeader :: "string option"

record swagger =
  schemes :: "string list option"
  doc_host :: "string option"
  basePath :: "string option"
  paths :: "(string \<times> (string \<times> operation) list) list option"

record property =
  prop_type :: string
  prop_description :: string

record inputSchema =
  schema_type :: string
  properties :: "(string \<times> property) list"
  schema_required :: "string list"

record SwaggerTool =
  tool_name :: string
  tool_description :: string
  tool_inputSchema :: inputSchema
  tool_method :: string
  tool_path :: string
  tool_parameters :: "parameter list"

record server =
  config :: ServerConfig
  swaggerDoc :: "swagger option"
  tools :: "SwaggerTool list"

subsection \<open>Tool schema builder\<close>

definition paramProperty :: "parameter \<Rightarrow> property" where
  \<comment> \<open>the property entry \<^verbatim>\<open>createToolFromOperation\<close> writes for one parameter\<close>
  "paramProperty param =
     \<lparr>prop_type =
        mapSwaggerType (str_or (param_type param) (str_or (param_schema_type param) ''string'')),
      prop_description = str_or (param_description param) (name param @ '' parameter'')\<rparr>"

definition addParam ::
  "(string \<times> property) list \<times> string list \<Rightarrow> parameter \<Rightarrow> (string \<times> property) list \<times> string list" where
  \<comment> \<open>one round of the \<^verbatim>\<open>forEach\<close> over the parameters\<close>
  "addParam acc param =
     (obj_set (fst acc) (name param) (paramProperty param),
      if required param then snd acc @ [name param] else snd acc)"

definition createToolFromOperation ::
  "string \<Rightarrow> string \<Rightarrow> string \<Rightarrow> operation \<Rightarrow> SwaggerTool" where
  "createToolFromOperation nm method path operation =
     (let params = (case parameters operation of None \<Rightarrow> [] | Some ps \<Rightarrow> ps);
          acc = foldl addParam ([], []) params
      in \<lparr>tool_name = nm,
          tool_description =
            str_or (summary operation)
              (str_or (op_description operation) (toUpperCase method @ '' '' @ path)),
          tool_inputSchema =
            \<lparr>schema_type = ''object'', properties = fst acc, schema_required = snd acc\<rparr>,
          tool_method = toUpperCase method,
          tool_path = path,
          tool_parameters = params\<rparr>)"

subsection \<open>Operation catalog builder\<close>

definition generateTools :: "server \<Rightarrow> js_error + server" where
  "generateTools this =
     (case swaggerDoc this of
        None \<Rightarrow> Inl (Error ''No valid swagger document loaded'')
      | Some doc \<Rightarrow>
          (case paths doc of
             None \<Rightarrow> Inl (Error ''No valid swagger document loaded'')
           | Some ps \<Rightarrow>
               let prefix = (if truthy (toolPrefix (config this))
                             then the (toolPrefix (config this)) @ ''_'' else [])
               in Inr (this\<lparr>tools := tools this @
                    concat (map (\<lambda>pathEntry.
                      map (\<lambda>methodEntry.
                             createToolFromOperation
                               (generateToolName prefix (fst methodEntry) (fst pathEntry) (snd methodEntry))
                               (fst methodEntry) (fst pathEntry) (snd methodEntry))
                          (filter (\<lambda>methodEntry.
                                     fst methodEntry \<in> set [''get'', ''post'', ''put'', ''delete'', ''patch''])
                                  (snd pathEntry)))
                      ps)\<rparr>)))"

subsection \<open>Request builder\<close>

definition getBaseUrlFromSwagger :: "server \<Rightarrow> js_error + string" where
  "getBaseUrlFromSwagger this =
     (case swaggerDoc this of
        None \<Rightarrow> Inl (Error ''No swagger document loaded'')
      | Some doc \<Rightarrow>
          Inr ((case schemes doc of
                  None \<Rightarrow> ''https''
                | Some [] \<Rightarrow> ''undefined''
                | Some (sch # _) \<Rightarrow> sch)
               @ ''://'' @ str_or (doc_host doc) ''localhost'' @ str_or (basePath doc) []))"

definition configuredBase :: "server \<Rightarrow> js_error + string" where
  \<comment> \<open>\<^verbatim>\<open>this.config.baseUrl || this.getBaseUrlFromSwagger()\<close>\<close>
  "configuredBase this =
     (if truthy (baseUrl (config this)) then Inr (the (baseUrl (config this)))
      else getBaseUrlFromSwagger this)"

definition argString :: "obj \<Rightarrow> string \<Rightarrow> string" where
  \<comment> \<open>the string form of \<^verbatim>\<open>args[key]\<close>\<close>
  "argString args key = (case map_of args key of None \<Rightarrow> ''undefined'' | Some v \<Rightarrow> toString v)"

definition substitutePath :: "string \<Rightarrow> obj \<Rightarrow> string" where
  \<comment> \<open>the replacement loop at the head of \<^verbatim>\<open>buildUrl\<close>\<close>
  "substitutePath path args =
     foldl (\<lambda>url key. replace url (''{'' @ key @ ''}'') (encodeURIComponent (argString args key)))
       path (Object_keys args)"

definition buildUrl :: "platform \<Rightarrow> server \<Rightarrow> string \<Rightarrow> obj \<Rightarrow> js_error + string" where
  "buildUrl P this path args =
     (let url = substitutePath path args
      in case configuredBase this of
           Inl e \<Rightarrow> Inl e
         | Inr base \<Rightarrow>
             if startsWith url ''/'' then
               (case URL_new P base of
                  Inl e \<Rightarrow> Inl e
                | Inr baseUrlObj \<Rightarrow>
                    let basePath = (if endsWith (pathname baseUrlObj) ''/''
                                    then pathname baseUrlObj else pathname baseUrlObj @ ''/'');
                        cleanPath = (if startsWith url ''/'' then drop 1 url else url)
                    in Inr (href (set_pathname baseUrlObj (basePath @ cleanPath))))
             else
               (case URL_new_base P url base of
                  Inl e \<Rightarrow> Inl e
                | Inr u \<Rightarrow> Inr (href u)))"

subsection \<open>Invocation proxy\<close>

record requestConfig =
  req_method :: string
  req_url :: string
  req_params :: obj
  req_data :: "obj option"
  req_headers :: "(string \<times> string) list option"

record contentItem =
  content_type :: string
  content_text :: string

record CallToolResult =
  content :: "contentItem list"
  isError :: "bool option"

definition collectParam :: "obj \<Rightarrow> obj \<times> obj \<Rightarrow> parameter \<Rightarrow> obj \<times> obj" where
  \<comment> \<open>one round of the \<^verbatim>\<open>forEach\<close> in \<^verbatim>\<open>callApiTool\<close>; the state is (queryParams, bodyData)\<close>
  "collectParam args acc param =
     (case map_of args (name param) of
        None \<Rightarrow> acc
      | Some v \<Rightarrow>
          if param_in param = ''query'' then (obj_set (fst acc) (name param) v, snd acc)
          else if param_in param = ''body'' then (fst acc, Object_assign (snd acc) v)
          else acc)"

definition buildRequest ::
  "platform \<Rightarrow> server \<Rightarrow> SwaggerTool \<Rightarrow> obj \<Rightarrow> js_error + requestConfig" where
  \<comment> \<open>\<^verbatim>\<open>callApiTool\<close> up to the request it hands to the HTTP client\<close>
  "buildRequest P this tool args =
     (case buildUrl P this (tool_path tool) args of
        Inl e \<Rightarrow> Inl e
      | Inr url \<Rightarrow>
          let acc = foldl (collectParam args) ([], []) (tool_parameters tool);
              queryParams = fst acc;
              bodyData = snd acc
          in Inr (if 0 < length (Object_keys bodyData)
                  then \<lparr>req_method = tool_method tool, req_url = url, req_params = queryParams,
                        req_data = Some bodyData,
                        req_headers = Some [(''Content-Type'', ''application/json'')]\<rparr>
                  else \<lparr>req_method = tool_method tool, req_url = url, req_params = queryParams,
                        req_data = None, req_headers = None\<rparr>))"

definition textResult :: "string \<Rightarrow> bool option \<Rightarrow> CallToolResult" where
  "textResult txt err = \<lparr>content = [\<lparr>content_type = ''text'', content_text = txt\<rparr>], isError = err\<rparr>"

definition errorMessage :: "(json \<Rightarrow> string) \<Rightarrow> js_error \<Rightarrow> string" where
  \<comment> \<open>the detail computed in the \<^verbatim>\<open>catch\<close> block\<close>
  "errorMessage stringify error =
     (case response error of
        Some r \<Rightarrow> ''HTTP '' @ show_nat (status r) @ '': '' @ stringify (resp_data r)
      | None \<Rightarrow> message error)"

definition try_catch :: "(js_error + 'a) \<Rightarrow> (js_error \<Rightarrow> js_error + 'a) \<Rightarrow> js_error + 'a" where
  "try_catch body handler = (case body of Inl e \<Rightarrow> handler e | Inr v \<Rightarrow> Inr v)"

definition callApiTool ::
  "(requestConfig \<Rightarrow> js_error + js_response) \<Rightarrow> (json \<Rightarrow> string) \<Rightarrow> platform \<Rightarrow>
   server \<Rightarrow> SwaggerTool \<Rightarrow> obj \<Rightarrow> js_error + CallToolResult" where
  \<comment> \<open>\<open>request\<close> is the injected HTTP client, \<open>stringify\<close> the platform's
      \<^verbatim>\<open>JSON.stringify(\<cdot>, null, 2)\<close>, \<open>P\<close> the platform's URL constructor\<close>
  "callApiTool request stringify P this tool args =
     try_catch
       (case buildRequest P this tool args of
          Inl e \<Rightarrow> Inl e
        | Inr rc \<Rightarrow>
            (case request rc of
               Inl e \<Rightarrow> Inl e
             | Inr resp \<Rightarrow> Inr (textResult (stringify (resp_data resp)) None)))
       (\<lambda>error.
          Inr (textResult (''Error calling '' @ tool_name tool @ '': '' @ errorMessage stringify error)
                 (Some True)))"

section \<open>Vocabulary of the properties\<close>

text \<open>
  The parameters of a tool that are declared at a given location and for which the
  argument bag holds a value, the query mapping collected from them and the body object
  merged from them.
\<close>

definition supplied :: "string \<Rightarrow> obj \<Rightarrow> parameter list \<Rightarrow> parameter list" where
  "supplied loc args ps = filter (\<lambda>p. param_in p = loc \<and> map_of args (name p) \<noteq> None) ps"

definition collectedQuery :: "obj \<Rightarrow> parameter list \<Rightarrow> obj" where
  "collectedQuery args ps =
     foldl (\<lambda>q p. obj_set q (name p) (the (map_of args (name p)))) [] (supplied ''query'' args ps)"

definition mergedBody :: "obj \<Rightarrow> parameter list \<Rightarrow> obj" where
  "mergedBody args ps =
     foldl Object_assign [] (map (\<lambda>p. the (map_of args (name p))) (supplied ''body'' args ps))"

definition isNumberOrBoolean :: "json \<Rightarrow> bool" where
  "isNumberOrBoolean v = (case v of JNum n \<Rightarrow> True | JBool b \<Rightarrow> True | _ \<Rightarrow> False)"

text \<open>
  A path template is a sequence of literal chunks and placeholders; \<open>render\<close> writes it
  as the string found in the API description. In a well-formed template no chunk and no
  placeholder name contains a brace.
\<close>

datatype seg = Lit string | Ph string

fun render :: "seg list \<Rightarrow> string" where
  "render [] = []"
| "render (Lit l # segs) = l @ render segs"
| "render (Ph n # segs) = ''{'' @ n @ ''}'' @ render segs"

definition braceFree :: "string \<Rightarrow> bool" where
  "braceFree s = (CHR ''{'' \<notin> set s \<and> CHR ''}'' \<notin> set s)"

fun wellFormed :: "seg list \<Rightarrow> bool" where
  "wellFormed [] = True"
| "wellFormed (Lit l # segs) = (braceFree l \<and> wellFormed segs)"
| "wellFormed (Ph n # segs) = (braceFree n \<and> wellFormed segs)"

fun placeholders :: "seg list \<Rightarrow> string list" where
  "placeholders [] = []"
| "placeholders (Lit l # segs) = placeholders segs"
| "placeholders (Ph n # segs) = n # placeholders segs"

fun fillFirst :: "string \<Rightarrow> string \<Rightarrow> seg list \<Rightarrow> seg list" where
  \<comment> \<open>the first placeholder named \<open>k\<close> becomes the literal \<open>v\<close>\<close>
  "fillFirst k v [] = []"
| "fillFirst k v (Lit l # segs) = Lit l # fillFirst k v segs"
| "fillFirst k v (Ph n # segs) = (if n = k then Lit v # segs else Ph n # fillFirst k v segs)"

definition fillAll :: "obj \<Rightarrow> seg list \<Rightarrow> seg list" where
  \<comment> \<open>one \<open>fillFirst\<close> per key of the argument bag, in key order\<close>
  "fillAll args segs =
     foldl (\<lambda>t key. fillFirst key (encodeURIComponent (argString args key)) t) segs (Object_keys args)"

definition fillEvery :: "obj \<Rightarrow> seg list \<Rightarrow> seg list" where
  \<comment> \<open>every placeholder becomes the percent-encoded value of its argument\<close>
  "fillEvery args segs =
     map (\<lambda>sg. case sg of Lit l \<Rightarrow> Lit l | Ph n \<Rightarrow> Lit (encodeURIComponent (argString args n))) segs"

text \<open>
  A path segment is clean when the path state of the URL parser leaves it as it is: none
  of its characters is a separator or percent-encoded, and it is not a dot segment. A URL
  record is hierarchical when its path is a list of clean segments, the first of which, in
  a \<^verbatim>\<open>file\<close> URL, is no drive letter written with a bar; the URL parser produces no other
  records with a path that is not opaque. The directories of a URL are its path segments
  without a trailing empty one.
\<close>

definition cleanChar :: "string \<Rightarrow> char \<Rightarrow> bool" where
  "cleanChar sch c = (\<not> pathSet c \<and> \<not> isSeparator sch c)"

definition cleanSegment :: "string \<Rightarrow> string \<Rightarrow> bool" where
  "cleanSegment sch sg = (list_all (cleanChar sch) sg \<and> \<not> isSingleDot sg \<and> \<not> isDoubleDot sg)"

definition driveNormal :: "string \<Rightarrow> string list \<Rightarrow> bool" where
  "driveNormal sch path =
     (sch = ''file'' \<longrightarrow>
        (case path of [] \<Rightarrow> True | d # _ \<Rightarrow> isDriveLetter d \<longrightarrow> isNormalizedDrive d))"

definition hierarchical :: "url \<Rightarrow> bool" where
  "hierarchical u =
     (\<not> opaque u \<and> list_all (cleanSegment (scheme u)) (url_path u)
      \<and> driveNormal (scheme u) (url_path u))"

definition baseDirs :: "url \<Rightarrow> string list" where
  "baseDirs u =
     (if url_path u \<noteq> [] \<and> last (url_path u) = [] then butlast (url_path u) else url_path u)"

definition slashed :: "string \<Rightarrow> string" where
  \<comment> \<open>a path closed by a slash\<close>
  "slashed p = (if endsWith p ''/'' then p else p @ ''/'')"

text \<open>
  The segments of a request path are what the path state of the URL parser reads between
  separators, once tabs and newlines are dropped. A request path is free of dot segments
  when none of them, percent-encoded, is a dot segment (\<^verbatim>\<open>.\<close>, \<^verbatim>\<open>..\<close> and their spellings
  with \<^verbatim>\<open>%2e\<close>). A character is verbatim when the parser neither drops it nor reads it as a
  separator other than the slash.
\<close>

fun splitWhen :: "(char \<Rightarrow> bool) \<Rightarrow> string \<Rightarrow> string list" where
  "splitWhen sep [] = [[]]"
| "splitWhen sep (c # cs) =
     (if sep c then [] # splitWhen sep cs
      else (c # hd (splitWhen sep cs)) # tl (splitWhen sep cs))"

definition requestSegments :: "string \<Rightarrow> string \<Rightarrow> string list" where
  "requestSegments sch p = splitWhen (isSeparator sch) (filter (\<lambda>c. \<not> isTabOrNewline c) p)"

definition isDotSegment :: "string \<Rightarrow> bool" where
  "isDotSegment b = (isSingleDot b \<or> isDoubleDot b)"

definition dotFree :: "string \<Rightarrow> string \<Rightarrow> bool" where
  "dotFree sch p =
     list_all (\<lambda>sg. \<not> isDotSegment (pctEncode pathSet sg)) (requestSegments sch p)"

definition verbatimChar :: "char \<Rightarrow> bool" where
  "verbatimChar c = (c \<noteq> CHR 0x5C \<and> \<not> isTabOrNewline c)"

section \<open>Example inputs\<close>

definition noOperation :: operation where
  "noOperation = \<lparr>operationId = None, summary = None, op_description = None, parameters = None\<rparr>"

definition limitParam :: parameter where
  "limitParam = \<lparr>name = ''limit'', param_in = ''query'', param_type = Some ''integer'',
      param_schema_type = None, param_description = None, required = True\<rparr>"

definition petParam :: parameter where
  "petParam = \<lparr>name = ''body'', param_in = ''body'', param_type = None,
      param_schema_type = Some ''object'', param_description = Some ''Pet to add'', required = True\<rparr>"

definition idParam :: parameter where
  "idParam = \<lparr>name = ''id'', param_in = ''path'', param_type = Some ''integer'',
      param_schema_type = None, param_description = None, required = True\<rparr>"

definition petTool :: SwaggerTool where
  "petTool = createToolFromOperation ''petstore_addPet'' ''post'' ''/pet''
      (noOperation\<lparr>parameters := Some [petParam]\<rparr>)"

definition petArgs :: obj where
  "petArgs = [(''body'', JObj [(''name'', JStr ''Fluffy'')])]"

definition getPetTool :: SwaggerTool where
  \<comment> \<open>an operation whose path parameter is not among its own parameter declarations\<close>
  "getPetTool = createToolFromOperation ''petstore_getPet'' ''get'' ''/pets/{id}'' noOperation"

definition getPetByIdTool :: SwaggerTool where
  "getPetByIdTool = createToolFromOperation ''petstore_getPetById'' ''get'' ''/pets/{id}''
      (noOperation\<lparr>parameters := Some [idParam]\<rparr>)"

definition okClient :: "requestConfig \<Rightarrow> js_error + js_response" where
  "okClient rc = Inr \<lparr>status = 200, resp_data = JNum 42\<rparr>"

definition notFoundClient :: "requestConfig \<Rightarrow> js_error + js_response" where
  "notFoundClient rc =
     Inl \<lparr>message = ''Request failed with status code 404'',
          response = Some \<lparr>status = 404, resp_data = JNull\<rparr>\<rparr>"

definition exampleServer :: server where
  "exampleServer =
     \<lparr>config = \<lparr>swaggerUrl = None, swaggerFile = Some ''swagger.json'', toolPrefix = Some ''petstore'',
                 baseUrl = Some ''https://api.example.com/api'', ignoreSsl = False,
                 authHeader = None\<rparr>,
      swaggerDoc = None, tools = []\<rparr>"

definition petRequest :: requestConfig where
  "petRequest =
     \<lparr>req_method = ''POST'', req_url = ''https://api.example.com/api/pet'', req_params = [],
      req_data = Some [(''name'', JStr ''Fluffy'')],
      req_headers = Some [(''Content-Type'', ''application/json'')]\<rparr>"

definition examplePlatform :: platform where
  \<comment> \<open>the examples use URLs that the model parses itself: the platform's constructor is
      not consulted, and this stand-in for it rejects its input\<close>
  "examplePlatform =
     \<lparr>URL_ctor = (\<lambda>input. Inl (TypeError ''Invalid URL'')),
      URL_resolve = (\<lambda>input base. Inl (TypeError ''Invalid URL''))\<rparr>"

definition exampleBase :: url where
  \<comment> \<open>the URL object of \<^verbatim>\<open>https://api.example.com/api\<close>\<close>
  "exampleBase =
     \<lparr>scheme = ''https'', username = [], password = [], host = Some ''api.example.com'',
      port = None, opaque = False, url_path = [''api''], query = None, fragment = None\<rparr>"

definition localServer :: server where
  \<comment> \<open>a deployment behind an IP address and a port\<close>
  "localServer =
     \<lparr>config = \<lparr>swaggerUrl = None, swaggerFile = Some ''swagger.json'', toolPrefix = None,
                 baseUrl = Some ''http://127.0.0.1:3000/api'', ignoreSsl = False,
                 authHeader = None\<rparr>,
      swaggerDoc = None, tools = []\<rparr>"

definition localBase :: url where
  \<comment> \<open>the URL object of \<^verbatim>\<open>http://127.0.0.1:3000/api\<close>\<close>
  "localBase =
     \<lparr>scheme = ''http'', username = [], password = [], host = Some ''127.0.0.1'',
      port = Some 3000, opaque = False, url_path = [''api''], query = None, fragment = None\<rparr>"

definition mailBase :: url where
  \<comment> \<open>the URL object of \<^verbatim>\<open>mailto:api@example.com\<close>, a URL with an opaque path\<close>
  "mailBase =
     \<lparr>scheme = ''mailto'', username = [], password = [], host = None, port = None,
      opaque = True, url_path = [''api@example.com''], query = None, fragment = None\<rparr>"

definition mailPlatform :: platform where
  \<comment> \<open>a stand-in for the platform's constructor that knows the URL above\<close>
  "mailPlatform =
     \<lparr>URL_ctor = (\<lambda>input. if input = ''mailto:api@example.com'' then Inr mailBase
                          else Inl (TypeError ''Invalid URL'')),
      URL_resolve = (\<lambda>input base. Inl (TypeError ''Invalid URL''))\<rparr>"

definition mailServer :: server where
  "mailServer =
     \<lparr>config = \<lparr>swaggerUrl = None, swaggerFile = Some ''swagger.json'', toolPrefix = None,
                 baseUrl = Some ''mailto:api@example.com'', ignoreSsl = False,
                 authHeader = None\<rparr>,
      swaggerDoc = None, tools = []\<rparr>"

definition backslashPath :: string where
  \<comment> \<open>the path \<^verbatim>\<open>/v1\x y\<close>\<close>
  "backslashPath = ''/v1'' @ [CHR 0x5C] @ ''x y''"

definition dotArgs :: obj where
  "dotArgs = [(''id'', JStr ''..'')]"

definition twoDotArgs :: obj where
  "twoDotArgs = [(''a'', JStr ''..''), (''b'', JStr ''..'')]"

definition numberBody :: obj where
  "numberBody = [(''body'', JNum 5)]"

definition stringBody :: obj where
  "stringBody = [(''body'', JStr ''ab'')]"

definition emptyRequest :: requestConfig where
  "emptyRequest =
     \<lparr>req_method = ''POST'', req_url = ''https://api.example.com/api/pet'', req_params = [],
      req_data = None, req_headers = None\<rparr>"

definition stringBodyRequest :: requestConfig where
  "stringBodyRequest =
     \<lparr>req_method = ''POST'', req_url = ''https://api.example.com/api/pet'', req_params = [],
      req_data = Some [(''0'', JStr ''a''), (''1'', JStr ''b'')],
      req_headers = Some [(''Content-Type'', ''application/json'')]\<rparr>"

definition dupTemplate :: "seg list" where
  \<comment> \<open>the template \<^verbatim>\<open>/a/{id}/b/{id}\<close>\<close>
  "dupTemplate = [Lit ''/a/'', Ph ''id'', Lit ''/b/'', Ph ''id'']"

definition petTemplate :: "seg list" where
  \<comment> \<open>the template \<^verbatim>\<open>/pets/{id}\<close>\<close>
  "petTemplate = [Lit ''/pets/'', Ph ''id'']"

definition idArgs :: obj where
  "idArgs = [(''id'', JNum 7)]"

section \<open>Auxiliary lemmas\<close>

subsection \<open>Strings\<close>

lemma endsWith_single: "endsWith s [c] \<longleftrightarrow> (s \<noteq> [] \<and> last s = c)"
proof (cases s rule: rev_cases)
  case Nil
  then show ?thesis by (simp add: endsWith_def)
next
  case (snoc ys y)
  then show ?thesis by (auto simp: endsWith_def)
qed

lemma startsWith_single: "startsWith s [c] \<longleftrightarrow> (s \<noteq> [] \<and> hd s = c)"
  by (cases s) (auto simp: startsWith_def)

lemma placeholder_iff:
  "(startsWith part ''{'' \<and> endsWith part ''}'') \<longleftrightarrow> (\<exists>x. part = ''{'' @ x @ ''}'')"
proof
  assume h: "startsWith part ''{'' \<and> endsWith part ''}''"
  then obtain rest where p: "part = CHR ''{'' # rest"
    by (cases part) (auto simp: startsWith_single)
  from h p have "rest \<noteq> []" "last rest = CHR ''}''"
    by (auto simp: endsWith_single split: if_splits)
  then have "rest = butlast rest @ ''}''"
    by (metis append_butlast_last_id)
  with p have "part = ''{'' @ butlast rest @ ''}''" by simp
  then show "\<exists>x. part = ''{'' @ x @ ''}''" by blast
next
  assume "\<exists>x. part = ''{'' @ x @ ''}''"
  then show "startsWith part ''{'' \<and> endsWith part ''}''"
    by (auto simp: startsWith_single endsWith_single)
qed

lemma slice_inner: "slice (a # x @ [b]) 1 (- 1) = x"
  by (simp add: slice_def)

lemma pathPart_placeholder: "pathPart (''{'' @ x @ ''}'') = ''by_'' @ x"
proof -
  have "startsWith (''{'' @ x @ ''}'') ''{'' \<and> endsWith (''{'' @ x @ ''}'') ''}''"
    using placeholder_iff by blast
  then show ?thesis using slice_inner[of "CHR ''{''" x "CHR ''}''"] by (simp add: pathPart_def)
qed

lemma pathPart_plain:
  assumes "\<not> (\<exists>x. part = ''{'' @ x @ ''}'')"
  shows "pathPart part = map (\<lambda>c. if isAlnum c then c else CHR ''_'') part"
proof -
  have "\<not> (startsWith part ''{'' \<and> endsWith part ''}'')"
    using assms placeholder_iff[of part] by blast
  then show ?thesis by (auto simp add: pathPart_def)
qed

lemma join_split: "join [sep] (split sep s) = s"
proof (induction s)
  case Nil
  then show ?case by simp
next
  case (Cons c cs)
  obtain p ps where sp: "split sep cs = p # ps"
    by (cases cs; cases "split sep cs"; simp split: if_splits)
  show ?case
  proof (cases "c = sep")
    case True
    with Cons sp show ?thesis by simp
  next
    case False
    with Cons sp show ?thesis by (cases ps) auto
  qed
qed

lemma split_no_sep: "part \<in> set (split sep s) \<Longrightarrow> sep \<notin> set part"
proof (induction s arbitrary: part)
  case Nil
  then show ?case by simp
next
  case (Cons c cs)
  obtain p ps where sp: "split sep cs = p # ps"
    by (cases cs; cases "split sep cs"; simp split: if_splits)
  with Cons show ?case by (auto split: if_splits)
qed

lemma startsWith_split: "startsWith s pat \<Longrightarrow> s = pat @ drop (length pat) s"
  by (metis append_take_drop_id startsWith_def)

lemma takeWhile_upto:
  "c \<notin> set n \<Longrightarrow> takeWhile (\<lambda>x. x \<noteq> c) (n @ c # t) = n"
  by (induction n) auto

subsection \<open>Objects and schemas\<close>

lemma map_of_obj_set: "map_of (obj_set kvs k v) = (map_of kvs)(k \<mapsto> v)"
  by (induction kvs k v rule: obj_set.induct) (auto simp: fun_eq_iff)

lemma obj_set_fresh: "k \<notin> set (map fst kvs) \<Longrightarrow> obj_set kvs k v = kvs @ [(k, v)]"
  by (induction kvs k v rule: obj_set.induct) auto

lemma key_set_obj_set: "fst ` set (obj_set kvs k v) = insert k (fst ` set kvs)"
  by (induction kvs k v rule: obj_set.induct) auto

lemma addParam_required:
  "snd (foldl addParam acc ps) = snd acc @ map name (filter required ps)"
  by (induction ps arbitrary: acc) (auto simp: addParam_def)

lemma addParam_other:
  "n \<notin> set (map name ps) \<Longrightarrow>
     map_of (fst (foldl addParam acc ps)) n = map_of (fst acc) n"
  by (induction ps arbitrary: acc) (auto simp: addParam_def map_of_obj_set)

lemma addParam_lookup:
  "distinct (map name ps) \<Longrightarrow> p \<in> set ps \<Longrightarrow>
     map_of (fst (foldl addParam acc ps)) (name p) = Some (paramProperty p)"
proof (induction ps arbitrary: acc)
  case Nil
  then show ?case by simp
next
  case (Cons q ps)
  show ?case
  proof (cases "p = q")
    case True
    have "name q \<notin> set (map name ps)" using Cons.prems by simp
    then have "map_of (fst (foldl addParam (addParam acc q) ps)) (name q)
                 = map_of (fst (addParam acc q)) (name q)"
      by (rule addParam_other)
    moreover have "map_of (fst (addParam acc q)) (name q) = Some (paramProperty q)"
      by (simp add: addParam_def map_of_obj_set)
    ultimately show ?thesis using True by simp
  next
    case False
    with Cons.prems have "p \<in> set ps" "distinct (map name ps)" by auto
    from Cons.IH[OF this(2) this(1)] show ?thesis by simp
  qed
qed

lemma addParam_key_set:
  "set (map fst (fst (foldl addParam acc ps))) = set (map fst (fst acc)) \<union> set (map name ps)"
proof (induction ps arbitrary: acc)
  case Nil
  then show ?case by simp
next
  case (Cons p ps)
  have "fst ` set (fst (addParam acc p)) = insert (name p) (fst ` set (fst acc))"
    by (simp add: addParam_def key_set_obj_set)
  with Cons[of "addParam acc p"] show ?case by auto
qed

lemma createTool_fields:
  "tool_path (createToolFromOperation nm method path operation) = path"
  "tool_name (createToolFromOperation nm method path operation) = nm"
  by (simp_all add: createToolFromOperation_def Let_def)

lemma collectParam_fst:
  "fst (foldl (collectParam args) acc ps) =
     foldl (\<lambda>q p. obj_set q (name p) (the (map_of args (name p)))) (fst acc) (supplied ''query'' args ps)"
  by (induction ps arbitrary: acc) (auto simp: collectParam_def supplied_def split: option.splits)

lemma collectParam_snd:
  "snd (foldl (collectParam args) acc ps) =
     foldl Object_assign (snd acc) (map (\<lambda>p. the (map_of args (name p))) (supplied ''body'' args ps))"
  by (induction ps arbitrary: acc) (auto simp: collectParam_def supplied_def split: option.splits)

lemma buildRequest_Inr:
  assumes "buildRequest P this tool args = Inr rc"
  shows "\<exists>url. buildUrl P this (tool_path tool) args = Inr url \<and>
     rc = (if mergedBody args (tool_parameters tool) \<noteq> []
           then \<lparr>req_method = tool_method tool, req_url = url,
                 req_params = collectedQuery args (tool_parameters tool),
                 req_data = Some (mergedBody args (tool_parameters tool)),
                 req_headers = Some [(''Content-Type'', ''application/json'')]\<rparr>
           else \<lparr>req_method = tool_method tool, req_url = url,
                 req_params = collectedQuery args (tool_parameters tool),
                 req_data = None, req_headers = None\<rparr>)"
proof (cases "buildUrl P this (tool_path tool) args")
  case (Inl e)
  with assms show ?thesis by (simp add: buildRequest_def)
next
  case (Inr url)
  with assms show ?thesis
    by (auto simp: buildRequest_def Let_def collectParam_fst collectParam_snd
          collectedQuery_def mergedBody_def Object_keys_def split: if_splits)
qed

lemma read_nat_snoc: "read_nat (ds @ [c]) = 10 * read_nat ds + (of_char c - 48)"
  by (simp add: read_nat_def)

lemma read_show_nat: "read_nat (show_nat n) = n"
proof (induction n rule: show_nat.induct)
  case (1 n)
  show ?case
  proof (cases "n < 10")
    case True
    then show ?thesis by (subst show_nat.simps) (simp add: read_nat_def)
  next
    case False
    have "read_nat (show_nat n) = 10 * read_nat (show_nat (n div 10)) + (of_char (char_of (48 + n mod 10) :: char) - 48)"
      using False by (subst show_nat.simps) (simp add: read_nat_snoc)
    also have "(of_char (char_of (48 + n mod 10) :: char) :: nat) = 48 + n mod 10"
      by simp
    finally show ?thesis using 1[OF False] by simp
  qed
qed

lemma show_nat_inj: "show_nat m = show_nat n \<Longrightarrow> m = n"
  by (metis read_show_nat)

lemma indexed_keys: "set (map fst (indexed i xs)) = show_nat ` {i ..< i + length xs}"
proof (induction xs arbitrary: i)
  case Nil
  then show ?case by simp
next
  case (Cons x xs)
  have "{i ..< i + length (x # xs)} = insert i {Suc i ..< Suc i + length xs}" by auto
  with Cons show ?case by simp
qed

lemma indexed_distinct: "distinct (map fst (indexed i xs))"
proof (induction xs arbitrary: i)
  case Nil
  then show ?case by simp
next
  case (Cons x xs)
  have "show_nat i \<notin> show_nat ` {Suc i ..< Suc i + length xs}"
    using show_nat_inj by fastforce
  with Cons show ?case by (simp add: indexed_keys del: set_map)
qed

lemma foldl_obj_set_fresh:
  "distinct (map fst (t @ kvs)) \<Longrightarrow>
     foldl (\<lambda>t kv. obj_set t (fst kv) (snd kv)) t kvs = t @ kvs"
proof (induction kvs arbitrary: t)
  case Nil
  then show ?case by simp
next
  case (Cons kv kvs)
  have "fst kv \<notin> set (map fst t)" using Cons.prems by auto
  then have step: "obj_set t (fst kv) (snd kv) = t @ [kv]" by (simp add: obj_set_fresh)
  have "distinct (map fst ((t @ [kv]) @ kvs))" using Cons.prems by simp
  from Cons.IH[OF this] step show ?case by simp
qed

lemma map_of_rev_distinct: "distinct (map fst xs) \<Longrightarrow> map_of (rev xs) = map_of xs"
proof (induction xs)
  case Nil
  then show ?case by simp
next
  case (Cons x xs)
  then have ih: "map_of (rev xs) = map_of xs" and fresh: "fst x \<notin> fst ` set xs" by simp_all
  have "map_of xs (fst x) = None" using fresh by (simp add: map_of_eq_None_iff)
  then show ?case using ih
    by (cases x) (auto simp: fun_eq_iff map_add_def split: option.splits)
qed

lemma map_of_foldl_obj_set:
  "map_of (foldl (\<lambda>t kv. obj_set t (fst kv) (snd kv)) t kvs) = map_of t ++ map_of (rev kvs)"
proof (induction kvs arbitrary: t)
  case Nil
  then show ?case by simp
next
  case (Cons kv kvs)
  have "map_of (obj_set t (fst kv) (snd kv)) ++ map_of (rev kvs)
          = map_of t ++ (map_of [kv] ++ map_of (rev kvs))"
    by (cases kv) (simp add: map_of_obj_set fun_eq_iff map_add_def split: option.splits)
  with Cons[of "obj_set t (fst kv) (snd kv)"] show ?case by simp
qed

lemma map_of_indexed:
  "i \<le> j \<Longrightarrow> j < i + length xs \<Longrightarrow> map_of (indexed i xs) (show_nat j) = Some (xs ! (j - i))"
proof (induction xs arbitrary: i)
  case Nil
  then show ?case by simp
next
  case (Cons x xs)
  show ?case
  proof (cases "j = i")
    case True
    then show ?thesis by simp
  next
    case False
    then have "show_nat i \<noteq> show_nat j" using show_nat_inj by blast
    moreover have "Suc i \<le> j" "j < Suc i + length xs" using False Cons.prems by simp_all
    ultimately show ?thesis using Cons.IH[of "Suc i"] Cons.prems False
      by (simp add: Suc_diff_le)
  qed
qed

lemma Object_assign_string_lookup:
  assumes "i < length s"
  shows "map_of (Object_assign target (JStr s)) (show_nat i) = Some (JStr [s ! i])"
proof -
  have d: "distinct (map fst (indexed 0 (map (\<lambda>c. JStr [c]) s)))"
    by (rule indexed_distinct)
  have "map_of (indexed 0 (map (\<lambda>c. JStr [c]) s)) (show_nat i) = Some (map (\<lambda>c. JStr [c]) s ! (i - 0))"
    using assms by (intro map_of_indexed) simp_all
  then have "map_of (rev (indexed 0 (map (\<lambda>c. JStr [c]) s))) (show_nat i) = Some (JStr [s ! i])"
    using d assms by (simp add: map_of_rev_distinct)
  then show ?thesis
    by (simp add: Object_assign_def map_of_foldl_obj_set map_add_def)
qed

lemma Object_assign_number_boolean: "isNumberOrBoolean v \<Longrightarrow> Object_assign target v = target"
  by (cases v) (simp_all add: Object_assign_def isNumberOrBoolean_def)

lemma Object_assign_string: "Object_assign [] (JStr s) = indexed 0 (map (\<lambda>c. JStr [c]) s)"
proof -
  have "distinct (map fst ([] @ indexed 0 (map (\<lambda>c. JStr [c]) s)))"
    using indexed_distinct[of 0 "map (\<lambda>c. JStr [c]) s"] by simp
  from foldl_obj_set_fresh[OF this] show ?thesis by (simp add: Object_assign_def)
qed

lemma foldl_Object_assign_number_boolean:
  "list_all isNumberOrBoolean vs \<Longrightarrow> foldl Object_assign target vs = target"
  by (induction vs arbitrary: target) (simp_all add: Object_assign_number_boolean)

subsection \<open>Percent-encoding and replacement\<close>

lemma getSubstitution_plain:
  "CHR ''$'' \<notin> set r \<Longrightarrow> getSubstitution m b a r = r"
  by (induction m b a r rule: getSubstitution.induct) auto

lemma hexDigit_cases: "hexDigit n \<in> set ''0123456789ABCDEF''"
  unfolding hexDigit_def by (rule nth_mem) simp

lemma pctByte_chars: "c \<in> set (pctByte b) \<Longrightarrow> c \<in> set ''%0123456789ABCDEF''"
  using hexDigit_cases[of b] hexDigit_cases[of "b div 16"] by (auto simp: pctByte_def)

lemma pctEncode_chars:
  "c \<in> set (pctEncode encodeSet s) \<Longrightarrow> (c \<in> set s \<and> \<not> encodeSet c) \<or> c \<in> set ''%0123456789ABCDEF''"
  unfolding pctEncode_def using pctByte_chars by (fastforce split: if_splits)

lemma uriUnreserved_special:
  "\<not> uriUnreserved CHR ''$''" "\<not> uriUnreserved CHR ''{''" "\<not> uriUnreserved CHR ''}''"
  by (simp_all add: uriUnreserved_def isAlnum_def)

lemma encodeURIComponent_no_dollar: "CHR ''$'' \<notin> set (encodeURIComponent s)"
  using pctEncode_chars[of "CHR ''$''" "\<lambda>c. \<not> uriUnreserved c" s] uriUnreserved_special
  by (auto simp: encodeURIComponent_def)

lemma encodeURIComponent_braceFree: "braceFree (encodeURIComponent s)"
  using pctEncode_chars[of "CHR ''{''" "\<lambda>c. \<not> uriUnreserved c" s]
        pctEncode_chars[of "CHR ''}''" "\<lambda>c. \<not> uriUnreserved c" s] uriUnreserved_special
  by (auto simp: encodeURIComponent_def braceFree_def)

lemma replace_plain:
  "CHR ''$'' \<notin> set r \<Longrightarrow>
     replace s pat r =
       (case indexOf s pat of None \<Rightarrow> s | Some i \<Rightarrow> take i s @ r @ drop (i + length pat) s)"
  by (simp add: replace_def getSubstitution_plain Let_def split: option.splits)

lemma indexOf_skip:
  "p \<notin> set l \<Longrightarrow> indexOf (l @ t) (p # ps) = map_option ((+) (length l)) (indexOf t (p # ps))"
proof (induction l)
  case Nil
  then show ?case by (simp add: option.map_ident)
next
  case (Cons c l)
  then have "\<not> startsWith (c # l @ t) (p # ps)" by (auto simp: startsWith_def)
  with Cons show ?case by (simp add: option.map_comp comp_def)
qed

lemma indexOf_Some_split:
  "indexOf s pat = Some i \<Longrightarrow> s = take i s @ pat @ drop (i + length pat) s \<and> i \<le> length s"
proof (induction s arbitrary: i)
  case Nil
  then show ?case by (simp split: if_splits)
next
  case (Cons c cs)
  show ?case
  proof (cases "startsWith (c # cs) pat")
    case True
    then have "i = 0" using Cons.prems by simp
    moreover have "c # cs = pat @ drop (length pat) (c # cs)"
      using True by (metis append_take_drop_id startsWith_def)
    ultimately show ?thesis by simp
  next
    case False
    with Cons.prems obtain j where j: "indexOf cs pat = Some j" "i = Suc j" by auto
    from Cons.IH[OF j(1)] j(2) show ?thesis by simp
  qed
qed

lemma replace_skip:
  assumes "CHR ''$'' \<notin> set r" "p \<notin> set l"
  shows "replace (l @ t) (p # ps) r = l @ replace t (p # ps) r"
  using assms by (simp add: replace_plain indexOf_skip split: option.splits)

lemma replace_here:
  assumes "CHR ''$'' \<notin> set r"
  shows "replace ((p # ps) @ t) (p # ps) r = r @ t"
  using assms by (simp add: replace_plain startsWith_def)

lemma replace_step:
  assumes "CHR ''$'' \<notin> set r" "\<not> startsWith (c # s) pat"
  shows "replace (c # s) pat r = c # replace s pat r"
  using assms by (simp add: replace_plain split: option.splits)

lemma token_prefix_eq:
  assumes "braceFree n" "braceFree k" "startsWith (n @ CHR ''}'' # t) (k @ ''}'')"
  shows "n = k"
proof -
  define t' where "t' = drop (length (k @ ''}'')) (n @ CHR ''}'' # t)"
  have "take (length (k @ ''}'')) (n @ CHR ''}'' # t) = k @ ''}''"
    using assms(3) by (simp add: startsWith_def)
  then have "n @ CHR ''}'' # t = (k @ ''}'') @ t'"
    unfolding t'_def by (metis append_take_drop_id)
  then have "takeWhile (\<lambda>x. x \<noteq> CHR ''}'') (n @ CHR ''}'' # t)
           = takeWhile (\<lambda>x. x \<noteq> CHR ''}'') (k @ CHR ''}'' # t')"
    by simp
  moreover have "takeWhile (\<lambda>x. x \<noteq> CHR ''}'') (n @ CHR ''}'' # t) = n"
    using assms(1) by (simp add: braceFree_def takeWhile_upto)
  moreover have "takeWhile (\<lambda>x. x \<noteq> CHR ''}'') (k @ CHR ''}'' # t') = k"
    using assms(2) by (simp add: braceFree_def takeWhile_upto)
  ultimately show ?thesis by simp
qed

lemma replace_other_token:
  assumes "CHR ''$'' \<notin> set r" "braceFree n" "braceFree k" "n \<noteq> k"
  shows "replace (''{'' @ n @ ''}'' @ t) (''{'' @ k @ ''}'') r
           = ''{'' @ n @ ''}'' @ replace t (''{'' @ k @ ''}'') r"
proof -
  have ns: "\<not> startsWith (CHR ''{'' # (n @ ''}'') @ t) (CHR ''{'' # k @ ''}'')"
  proof
    assume "startsWith (CHR ''{'' # (n @ ''}'') @ t) (CHR ''{'' # k @ ''}'')"
    then have "startsWith (n @ CHR ''}'' # t) (k @ ''}'')" by (simp add: startsWith_def)
    from token_prefix_eq[OF assms(2,3) this] assms(4) show False by simp
  qed
  have fresh: "CHR ''{'' \<notin> set (n @ ''}'')" using assms(2) by (simp add: braceFree_def)
  have "replace (CHR ''{'' # (n @ ''}'') @ t) (CHR ''{'' # k @ ''}'') r
          = CHR ''{'' # replace ((n @ ''}'') @ t) (CHR ''{'' # k @ ''}'') r"
    by (rule replace_step[OF assms(1) ns])
  also have "replace ((n @ ''}'') @ t) (CHR ''{'' # k @ ''}'') r
          = (n @ ''}'') @ replace t (CHR ''{'' # k @ ''}'') r"
    by (rule replace_skip[OF assms(1) fresh])
  finally show ?thesis by simp
qed

subsection \<open>Path templates\<close>

lemma render_append: "render (a @ b) = render a @ render b"
  by (induction a rule: render.induct) simp_all

lemma wellFormed_append: "wellFormed (a @ b) = (wellFormed a \<and> wellFormed b)"
  by (induction a rule: wellFormed.induct) simp_all

lemma placeholders_append: "placeholders (a @ b) = placeholders a @ placeholders b"
  by (induction a rule: placeholders.induct) simp_all

lemma placeholders_braceFree: "wellFormed segs \<Longrightarrow> n \<in> set (placeholders segs) \<Longrightarrow> braceFree n"
  by (induction segs rule: wellFormed.induct) auto

lemma render_no_placeholders:
  "wellFormed segs \<Longrightarrow> placeholders segs = [] \<Longrightarrow> braceFree (render segs)"
  by (induction segs rule: render.induct) (auto simp: braceFree_def)

lemma replace_render:
  assumes "CHR ''$'' \<notin> set r" "braceFree k"
  shows "wellFormed segs \<Longrightarrow> replace (render segs) (''{'' @ k @ ''}'') r = render (fillFirst k r segs)"
proof (induction segs rule: render.induct)
  case 1
  then show ?case by (simp add: replace_plain assms(1))
next
  case (2 l segs)
  then have "CHR ''{'' \<notin> set l" by (simp add: braceFree_def)
  from replace_skip[OF assms(1) this, of "render segs" "k @ ''}''"] 2 show ?case by simp
next
  case (3 n segs)
  show ?case
  proof (cases "n = k")
    case True
    from replace_here[OF assms(1), of "CHR ''{''" "k @ ''}''" "render segs"] True
    show ?thesis by simp
  next
    case False
    from 3 have "braceFree n" "wellFormed segs" by simp_all
    from replace_other_token[OF assms(1) this(1) assms(2) False, of "render segs"] 3 False
    show ?thesis by simp
  qed
qed

lemma wellFormed_fillFirst:
  "braceFree v \<Longrightarrow> wellFormed segs \<Longrightarrow> wellFormed (fillFirst k v segs)"
  by (induction k v segs rule: fillFirst.induct) auto

lemma placeholders_fillFirst: "placeholders (fillFirst k v segs) = remove1 k (placeholders segs)"
  by (induction k v segs rule: fillFirst.induct) auto

lemma fillFirst_at:
  "k \<notin> set (placeholders pre) \<Longrightarrow> fillFirst k v (pre @ Ph k # post) = pre @ Lit v # post"
  by (induction pre rule: placeholders.induct) auto

lemma substitute_keys_render:
  "wellFormed segs \<Longrightarrow> list_all braceFree ks \<Longrightarrow>
     foldl (\<lambda>url key. replace url (''{'' @ key @ ''}'') (encodeURIComponent (argString args key)))
       (render segs) ks
     = render (foldl (\<lambda>t key. fillFirst key (encodeURIComponent (argString args key)) t) segs ks)"
proof (induction ks arbitrary: segs)
  case Nil
  then show ?case by simp
next
  case (Cons k ks)
  have k: "braceFree k" and ks: "list_all braceFree ks" using Cons.prems by simp_all
  have wf: "wellFormed (fillFirst k (encodeURIComponent (argString args k)) segs)"
    using Cons.prems(1) by (simp add: wellFormed_fillFirst encodeURIComponent_braceFree)
  have "replace (render segs) (''{'' @ k @ ''}'') (encodeURIComponent (argString args k))
          = render (fillFirst k (encodeURIComponent (argString args k)) segs)"
    using replace_render[OF encodeURIComponent_no_dollar k Cons.prems(1)] .
  with Cons.IH[OF wf ks] show ?case by simp
qed

lemma substitutePath_render:
  "wellFormed segs \<Longrightarrow> list_all braceFree (Object_keys args) \<Longrightarrow>
     substitutePath (render segs) args = render (fillAll args segs)"
  unfolding substitutePath_def fillAll_def by (rule substitute_keys_render)

lemma placeholders_fill_keys:
  "placeholders (foldl (\<lambda>t key. fillFirst key (encodeURIComponent (argString args key)) t) segs ks)
     = foldl (\<lambda>ps k. remove1 k ps) (placeholders segs) ks"
  by (induction ks arbitrary: segs) (simp_all add: placeholders_fillFirst)

lemma remove_all_keys:
  "distinct ps \<Longrightarrow> set ps \<subseteq> set ks \<Longrightarrow> foldl (\<lambda>ps k. remove1 k ps) ps ks = []"
proof (induction ks arbitrary: ps)
  case Nil
  then show ?case by simp
next
  case (Cons k ks)
  have "distinct (remove1 k ps)" using Cons.prems(1) by simp
  moreover have "set (remove1 k ps) \<subseteq> set ks" using Cons.prems by auto
  ultimately show ?case using Cons.IH by simp
qed

lemma fillEvery_fillFirst:
  "fillEvery args (fillFirst k (encodeURIComponent (argString args k)) segs) = fillEvery args segs"
  by (induction k "encodeURIComponent (argString args k)" segs rule: fillFirst.induct)
     (simp_all add: fillEvery_def)

lemma fillEvery_fill_keys:
  "fillEvery args
     (foldl (\<lambda>t key. fillFirst key (encodeURIComponent (argString args key)) t) segs ks)
   = fillEvery args segs"
  by (induction ks arbitrary: segs) (simp_all add: fillEvery_fillFirst)

lemma fillEvery_no_placeholders: "placeholders segs = [] \<Longrightarrow> fillEvery args segs = segs"
  by (induction segs rule: placeholders.induct) (simp_all add: fillEvery_def)

lemma fillAll_every:
  assumes "distinct (placeholders segs)" "set (placeholders segs) \<subseteq> set (Object_keys args)"
  shows "fillAll args segs = fillEvery args segs"
proof -
  have "placeholders (fillAll args segs) = []"
    using assms by (simp add: fillAll_def placeholders_fill_keys remove_all_keys)
  then have "fillEvery args (fillAll args segs) = fillAll args segs"
    by (rule fillEvery_no_placeholders)
  then show ?thesis by (simp add: fillAll_def fillEvery_fill_keys)
qed

lemma render_split_at_close:
  "wellFormed segs \<Longrightarrow> render segs = u @ CHR ''}'' # w \<Longrightarrow>
     \<exists>mid post. segs = mid @ post \<and> render mid = u @ ''}'' \<and> render post = w"
proof (induction segs arbitrary: u rule: render.induct)
  case 1
  then show ?case by simp
next
  case (2 l segs)
  then have nl: "CHR ''}'' \<notin> set l" and wf: "wellFormed segs" by (simp_all add: braceFree_def)
  from 2(3) have e: "l @ render segs = u @ CHR ''}'' # w" by simp
  then obtain z where z: "(l = u @ z \<and> z @ render segs = CHR ''}'' # w) \<or>
                          (l @ z = u \<and> render segs = z @ CHR ''}'' # w)"
    unfolding append_eq_append_conv2 by blast
  have "\<exists>u'. u = l @ u' \<and> render segs = u' @ CHR ''}'' # w"
  proof (cases "l = u @ z \<and> z @ render segs = CHR ''}'' # w")
    case True
    then have "z = []" using nl by (cases z) auto
    with True show ?thesis by auto
  next
    case False
    with z show ?thesis by auto
  qed
  then obtain u' where u': "u = l @ u'" "render segs = u' @ CHR ''}'' # w" by blast
  from 2(1)[OF wf u'(2)] obtain mid post where
    "segs = mid @ post" "render mid = u' @ ''}''" "render post = w" by blast
  then have "Lit l # segs = (Lit l # mid) @ post \<and> render (Lit l # mid) = u @ ''}'' \<and> render post = w"
    using u' by simp
  then show ?case by blast
next
  case (3 n segs)
  then have nn: "CHR ''}'' \<notin> set n" and wf: "wellFormed segs" by (simp_all add: braceFree_def)
  from 3(3) obtain u1 where u1: "u = CHR ''{'' # u1" "n @ CHR ''}'' # render segs = u1 @ CHR ''}'' # w"
    by (cases u) auto
  then obtain z where z: "(n = u1 @ z \<and> z @ CHR ''}'' # render segs = CHR ''}'' # w) \<or>
                          (n @ z = u1 \<and> CHR ''}'' # render segs = z @ CHR ''}'' # w)"
    unfolding append_eq_append_conv2 by blast
  have "(n = u1 \<and> render segs = w) \<or> (\<exists>z'. u1 = n @ CHR ''}'' # z' \<and> render segs = z' @ CHR ''}'' # w)"
  proof (cases "n = u1 @ z \<and> z @ CHR ''}'' # render segs = CHR ''}'' # w")
    case True
    then have "z = []" using nn by (cases z) auto
    with True show ?thesis by auto
  next
    case False
    with z have b: "n @ z = u1" "CHR ''}'' # render segs = z @ CHR ''}'' # w" by auto
    show ?thesis
    proof (cases z)
      case Nil
      with b show ?thesis by auto
    next
      case (Cons c z')
      with b show ?thesis by auto
    qed
  qed
  then show ?case
  proof
    assume "n = u1 \<and> render segs = w"
    then have "Ph n # segs = [Ph n] @ segs \<and> render [Ph n] = u @ ''}'' \<and> render segs = w"
      using u1 by simp
    then show ?thesis by blast
  next
    assume "\<exists>z'. u1 = n @ CHR ''}'' # z' \<and> render segs = z' @ CHR ''}'' # w"
    then obtain z' where z': "u1 = n @ CHR ''}'' # z'" "render segs = z' @ CHR ''}'' # w" by blast
    from 3(1)[OF wf z'(2)] obtain mid post where
      "segs = mid @ post" "render mid = z' @ ''}''" "render post = w" by blast
    then have "Ph n # segs = (Ph n # mid) @ post \<and> render (Ph n # mid) = u @ ''}'' \<and> render post = w"
      using u1 z' by simp
    then show ?thesis by blast
  qed
qed

lemma match_structure:
  "wellFormed segs \<Longrightarrow> indexOf (render segs) (CHR ''{'' # k @ ''}'') = Some i \<Longrightarrow>
     \<exists>pre mid post. segs = pre @ mid @ post \<and> render pre = take i (render segs)
        \<and> render mid = CHR ''{'' # k @ ''}''"
proof (induction segs arbitrary: i rule: render.induct)
  case 1
  then show ?case by simp
next
  case (2 l segs)
  then have nl: "CHR ''{'' \<notin> set l" and wf: "wellFormed segs" by (simp_all add: braceFree_def)
  from 2(3) indexOf_skip[OF nl, of "render segs" "k @ ''}''"]
  obtain j where j: "indexOf (render segs) (CHR ''{'' # k @ ''}'') = Some j" "i = length l + j"
    by auto
  from 2(1)[OF wf j(1)] obtain pre mid post where
    p: "segs = pre @ mid @ post" "render pre = take j (render segs)" "render mid = CHR ''{'' # k @ ''}''"
    by blast
  have "Lit l # segs = (Lit l # pre) @ mid @ post \<and>
        render (Lit l # pre) = take i (render (Lit l # segs)) \<and> render mid = CHR ''{'' # k @ ''}''"
    using p j(2) by simp
  then show ?case by blast
next
  case (3 n segs)
  then have bn: "braceFree n" and wf: "wellFormed segs" by simp_all
  show ?case
  proof (cases "startsWith (render (Ph n # segs)) (CHR ''{'' # k @ ''}'')")
    case True
    then have i0: "i = 0" using 3(3) by simp
    from startsWith_split[OF True] have "render (Ph n # segs)
        = (CHR ''{'' # k) @ CHR ''}'' # drop (length (CHR ''{'' # k @ ''}'')) (render (Ph n # segs))"
      by simp
    from render_split_at_close[OF 3(2) this] obtain mid post where
      "Ph n # segs = mid @ post" "render mid = (CHR ''{'' # k) @ ''}''" by blast
    then have "Ph n # segs = [] @ mid @ post \<and> render [] = take i (render (Ph n # segs))
        \<and> render mid = CHR ''{'' # k @ ''}''"
      using i0 by simp
    then show ?thesis by blast
  next
    case False
    have fresh: "CHR ''{'' \<notin> set (n @ ''}'')" using bn by (simp add: braceFree_def)
    from False 3(3) obtain j1 where
      j1: "indexOf ((n @ ''}'') @ render segs) (CHR ''{'' # k @ ''}'') = Some j1" "i = Suc j1"
      by auto
    with indexOf_skip[OF fresh, of "render segs" "k @ ''}''"] obtain j where
      j: "indexOf (render segs) (CHR ''{'' # k @ ''}'') = Some j" "j1 = length (n @ ''}'') + j"
      by auto
    from 3(1)[OF wf j(1)] obtain pre mid post where
      p: "segs = pre @ mid @ post" "render pre = take j (render segs)" "render mid = CHR ''{'' # k @ ''}''"
      by blast
    have "Ph n # segs = (Ph n # pre) @ mid @ post \<and>
        render (Ph n # pre) = take i (render (Ph n # segs)) \<and> render mid = CHR ''{'' # k @ ''}''"
      using p j j1 by simp
    then show ?thesis by blast
  qed
qed

lemma replace_keeps_shape:
  assumes "wellFormed segs" "distinct (placeholders segs)" "CHR ''$'' \<notin> set r" "braceFree r"
  shows "\<exists>segs'. replace (render segs) (''{'' @ k @ ''}'') r = render segs' \<and> wellFormed segs'
           \<and> distinct (placeholders segs')
           \<and> set (placeholders segs') \<subseteq> set (placeholders segs) - {k}"
proof (cases "braceFree k")
  case True
  have "replace (render segs) (''{'' @ k @ ''}'') r = render (fillFirst k r segs)"
    using replace_render[OF assms(3) True assms(1)] .
  moreover have "wellFormed (fillFirst k r segs)"
    using assms(1,4) by (simp add: wellFormed_fillFirst)
  moreover have "distinct (placeholders (fillFirst k r segs))"
    "set (placeholders (fillFirst k r segs)) \<subseteq> set (placeholders segs) - {k}"
    using assms(2) by (auto simp: placeholders_fillFirst)
  ultimately show ?thesis by blast
next
  case False
  then have nk: "k \<notin> set (placeholders segs)"
    using placeholders_braceFree[OF assms(1)] by blast
  show ?thesis
  proof (cases "indexOf (render segs) (CHR ''{'' # k @ ''}'')")
    case None
    then have "replace (render segs) (''{'' @ k @ ''}'') r = render segs"
      by (simp add: replace_plain assms(3))
    with assms(1,2) nk show ?thesis by auto
  next
    case (Some i)
    from match_structure[OF assms(1) Some] obtain pre mid post where
      p: "segs = pre @ mid @ post" "render pre = take i (render segs)"
         "render mid = CHR ''{'' # k @ ''}''"
      by blast
    have len: "length (render pre) = i"
      using p(2) indexOf_Some_split[OF Some] by simp
    have "render segs = render pre @ (CHR ''{'' # k @ ''}'') @ render post"
      using p by (simp add: render_append)
    then have dr: "drop (i + length (CHR ''{'' # k @ ''}'')) (render segs) = render post"
      using len by (metis append.assoc append_eq_conv_conj length_append)
    have "replace (render segs) (''{'' @ k @ ''}'') r = render (pre @ Lit r # post)"
      using Some p(2) dr by (simp add: replace_plain assms(3) render_append)
    moreover have "wellFormed (pre @ Lit r # post)"
      using assms(1,4) p(1) by (simp add: wellFormed_append)
    moreover have "distinct (placeholders (pre @ Lit r # post))"
      "set (placeholders (pre @ Lit r # post)) \<subseteq> set (placeholders segs) - {k}"
      using assms(2) nk p(1) by (auto simp: placeholders_append)
    ultimately show ?thesis by blast
  qed
qed

lemma substitute_keys_shape:
  "wellFormed segs \<Longrightarrow> distinct (placeholders segs) \<Longrightarrow>
     \<exists>segs'. foldl (\<lambda>url key. replace url (''{'' @ key @ ''}'') (encodeURIComponent (argString args key)))
                (render segs) ks = render segs'
        \<and> wellFormed segs' \<and> set (placeholders segs') \<subseteq> set (placeholders segs) - set ks"
proof (induction ks arbitrary: segs)
  case Nil
  then show ?case by auto
next
  case (Cons k ks)
  from replace_keeps_shape[where r = "encodeURIComponent (argString args k)" and k = k,
         OF Cons.prems encodeURIComponent_no_dollar encodeURIComponent_braceFree]
  obtain s1 where s1:
    "replace (render segs) (''{'' @ k @ ''}'') (encodeURIComponent (argString args k)) = render s1"
    "wellFormed s1" "distinct (placeholders s1)"
    "set (placeholders s1) \<subseteq> set (placeholders segs) - {k}"
    by blast
  from Cons.IH[OF s1(2,3)] obtain s2 where s2:
    "foldl (\<lambda>url key. replace url (''{'' @ key @ ''}'') (encodeURIComponent (argString args key)))
       (render s1) ks = render s2"
    "wellFormed s2" "set (placeholders s2) \<subseteq> set (placeholders s1) - set ks"
    by blast
  have "set (placeholders s2) \<subseteq> set (placeholders segs) - set (k # ks)"
    using s1(4) s2(3) by auto
  with s1(1) s2(1,2) show ?case by auto
qed

lemma substitutePath_braceFree:
  assumes "wellFormed segs" "distinct (placeholders segs)"
    "set (placeholders segs) \<subseteq> set (Object_keys args)"
  shows "braceFree (substitutePath (render segs) args)"
proof -
  from substitute_keys_shape[OF assms(1,2), of args "Object_keys args"] obtain s where s:
    "substitutePath (render segs) args = render s" "wellFormed s"
    "set (placeholders s) \<subseteq> set (placeholders segs) - set (Object_keys args)"
    unfolding substitutePath_def by blast
  from s(3) assms(3) have "set (placeholders s) \<subseteq> {}" by blast
  then have "placeholders s = []" by simp
  with s show ?thesis by (simp add: render_no_placeholders)
qed

lemma substitutePath_empty: "substitutePath path [] = path"
  by (simp add: substitutePath_def Object_keys_def)

lemma buildUrl_via_substitutePath:
  "buildUrl P this path args = buildUrl P this (substitutePath path args) []"
  by (simp add: buildUrl_def substitutePath_empty)

subsection \<open>URL paths\<close>

lemma pct_chars_plain:
  "list_all (\<lambda>c. \<not> pathSet c \<and> c \<noteq> CHR ''/'' \<and> c \<noteq> CHR 0x5C) ''%0123456789ABCDEF''"
  by code_simp

lemma cleanChar_pct: "c \<in> set ''%0123456789ABCDEF'' \<Longrightarrow> cleanChar sch c"
  using pct_chars_plain unfolding list_all_iff cleanChar_def isSeparator_def by blast

lemma cleanChar_encoded:
  assumes "\<not> isSeparator sch c"
  shows "list_all (cleanChar sch) (pctEncode pathSet [c])"
proof -
  have "cleanChar sch d" if "d \<in> set (pctEncode pathSet [c])" for d
    using pctEncode_chars[OF that]
  proof (elim disjE conjE)
    assume "d \<in> set [c]" "\<not> pathSet d"
    then show ?thesis using assms by (simp add: cleanChar_def)
  next
    assume "d \<in> set ''%0123456789ABCDEF''"
    then show ?thesis by (rule cleanChar_pct)
  qed
  then show ?thesis unfolding list_all_iff by blast
qed

lemma dot_Nil: "\<not> isSingleDot []" "\<not> isDoubleDot []"
  by (simp_all add: isSingleDot_def isDoubleDot_def toLowerCase_def)

lemma segmentEnd_clean:
  "sch \<noteq> ''file'' \<Longrightarrow> list_all (cleanSegment sch) path \<Longrightarrow> list_all (cleanChar sch) buffer \<Longrightarrow>
     list_all (cleanSegment sch) (segmentEnd sch path buffer sep)"
  by (auto simp: segmentEnd_def shorten_def dot_Nil cleanSegment_def list_all_iff
        dest: in_set_butlastD)

lemma pathState_clean:
  "sch \<noteq> ''file'' \<Longrightarrow> list_all (cleanSegment sch) path \<Longrightarrow> list_all (cleanChar sch) buffer \<Longrightarrow>
     list_all (cleanSegment sch) (pathState sch path buffer input)"
proof (induction input arbitrary: path buffer)
  case Nil
  then show ?case by (simp add: segmentEnd_clean)
next
  case (Cons c cs)
  show ?case
  proof (cases "isSeparator sch c")
    case True
    then show ?thesis using Cons by (simp add: segmentEnd_clean)
  next
    case False
    then have "list_all (cleanChar sch) (buffer @ pctEncode pathSet [c])"
      using Cons.prems(3) cleanChar_encoded[of sch c] by simp
    with False Cons show ?thesis by simp
  qed
qed

lemma pathStart_clean:
  "sch \<noteq> ''file'' \<Longrightarrow> list_all (cleanSegment sch) (pathStart sch hostless input)"
  by (cases input)
     (simp_all add: pathStart_def pathState_clean cleanSegment_def dot_Nil del: pathState.simps)

lemma parseQueryFragment_fields:
  "url_path (parseQueryFragment u rest) = url_path u"
  "scheme (parseQueryFragment u rest) = scheme u"
  "opaque (parseQueryFragment u rest) = opaque u"
  "host (parseQueryFragment u rest) = host u"
  by (simp_all add: parseQueryFragment_def Let_def split: list.splits)

lemma parsePlain_hierarchical:
  assumes "parsePlain input = Some u"
  shows "hierarchical u \<and> host u \<noteq> None \<and> scheme u \<noteq> ''file''"
  using assms
  by (auto simp: parsePlain_def Let_def parseQueryFragment_fields pathStart_clean
        hierarchical_def driveNormal_def
        split: if_splits option.splits)

lemma pctEncode_Nil: "pctEncode encodeSet [] = []"
  by (simp add: pctEncode_def)

lemma pctEncode_append: "pctEncode encodeSet (a @ b) = pctEncode encodeSet a @ pctEncode encodeSet b"
  by (simp add: pctEncode_def)

lemma pctEncode_Cons: "pctEncode encodeSet (c # s) = pctEncode encodeSet [c] @ pctEncode encodeSet s"
  by (simp add: pctEncode_def)

lemma pctEncode_clean: "list_all (cleanChar sch) sg \<Longrightarrow> pctEncode pathSet sg = sg"
  by (induction sg) (simp_all add: pctEncode_def cleanChar_def)

lemma pathState_encoded_segment:
  "list_all (\<lambda>c. \<not> isSeparator sch c) sg \<Longrightarrow>
     pathState sch path buffer (sg @ CHR ''/'' # t)
       = pathState sch (segmentEnd sch path (buffer @ pctEncode pathSet sg) True) [] t"
proof (induction sg arbitrary: buffer)
  case Nil
  then show ?case by (simp add: pctEncode_Nil isSeparator_def)
next
  case (Cons c sg)
  then have "pathState sch path buffer ((c # sg) @ CHR ''/'' # t)
      = pathState sch path (buffer @ pctEncode pathSet [c]) (sg @ CHR ''/'' # t)"
    by simp
  also have "\<dots> = pathState sch
      (segmentEnd sch path ((buffer @ pctEncode pathSet [c]) @ pctEncode pathSet sg) True) [] t"
    using Cons.prems by (intro Cons.IH) simp
  finally show ?case using pctEncode_Cons[of pathSet c sg] by simp
qed

lemma cleanSegment_no_separator:
  "cleanSegment sch sg \<Longrightarrow> list_all (\<lambda>c. \<not> isSeparator sch c) sg"
  by (simp add: cleanSegment_def cleanChar_def list_all_iff)

lemma normalized_drive: "isNormalizedDrive d \<Longrightarrow> [hd d, CHR '':''] = d"
  by (auto simp: isNormalizedDrive_def split: list.splits)

lemma segmentEnd_cleanSegment:
  assumes "cleanSegment sch sg" "path \<noteq> [] \<or> driveNormal sch [sg]"
  shows "segmentEnd sch path sg sep = path @ [sg]"
  using assms normalized_drive[of sg]
  by (auto simp: segmentEnd_def cleanSegment_def driveNormal_def)

lemma pathState_dirs:
  "list_all (cleanSegment sch) dirs \<Longrightarrow> path \<noteq> [] \<or> driveNormal sch dirs \<Longrightarrow>
     pathState sch path [] (concat (map (\<lambda>sg. sg @ ''/'') dirs) @ rest)
       = pathState sch (path @ dirs) [] rest"
proof (induction dirs arbitrary: path)
  case Nil
  then show ?case by simp
next
  case (Cons d dirs)
  then have d: "cleanSegment sch d" and ds: "list_all (cleanSegment sch) dirs" by simp_all
  have dn: "path \<noteq> [] \<or> driveNormal sch [d]"
    using Cons.prems(2) by (auto simp: driveNormal_def)
  have "pathState sch path [] (d @ CHR ''/'' # (concat (map (\<lambda>sg. sg @ ''/'') dirs) @ rest))
          = pathState sch (segmentEnd sch path ([] @ pctEncode pathSet d) True) []
              (concat (map (\<lambda>sg. sg @ ''/'') dirs) @ rest)"
    using d by (intro pathState_encoded_segment cleanSegment_no_separator)
  also have "pctEncode pathSet d = d"
    using d by (intro pctEncode_clean[of sch]) (simp add: cleanSegment_def)
  also have "pathState sch (segmentEnd sch path ([] @ d) True) []
              (concat (map (\<lambda>sg. sg @ ''/'') dirs) @ rest)
           = pathState sch ((path @ [d]) @ dirs) [] rest"
    using Cons.IH[OF ds, of "path @ [d]"] segmentEnd_cleanSegment[OF d dn] by simp
  finally show ?case by simp
qed

lemma concat_slash_shift:
  "concat (map (\<lambda>sg. CHR ''/'' # sg) dirs) @ ''/'' = CHR ''/'' # concat (map (\<lambda>sg. sg @ ''/'') dirs)"
  by (induction dirs) simp_all

lemma cleanSegment_last_not_slash:
  "cleanSegment sch sg \<Longrightarrow> sg \<noteq> [] \<Longrightarrow> last sg \<noteq> CHR ''/''"
  by (auto simp: cleanSegment_def cleanChar_def isSeparator_def list_all_iff dest: last_in_set)

lemma slashed_pathname:
  assumes "hierarchical u"
  shows "slashed (pathname u) = CHR ''/'' # concat (map (\<lambda>sg. sg @ ''/'') (baseDirs u))"
proof (cases "url_path u" rule: rev_cases)
  case Nil
  then show ?thesis using assms
    by (simp add: slashed_def pathname_def baseDirs_def hierarchical_def endsWith_def)
next
  case (snoc q l)
  have pn: "pathname u = concat (map (\<lambda>sg. CHR ''/'' # sg) q) @ CHR ''/'' # l"
    using assms by (simp add: pathname_def snoc hierarchical_def)
  show ?thesis
  proof (cases "l = []")
    case True
    then have "endsWith (pathname u) ''/''" by (simp add: pn endsWith_single)
    moreover have "baseDirs u = q" using True by (simp add: baseDirs_def snoc)
    ultimately show ?thesis using True pn concat_slash_shift[of q] by (simp add: slashed_def)
  next
    case False
    have "cleanSegment (scheme u) l" using assms snoc by (simp add: hierarchical_def)
    then have "last l \<noteq> CHR ''/''" using False by (rule cleanSegment_last_not_slash)
    then have "\<not> endsWith (pathname u) ''/''" using False by (simp add: pn endsWith_single)
    moreover have "baseDirs u = q @ [l]" using False by (simp add: baseDirs_def snoc)
    moreover have "pathname u = concat (map (\<lambda>sg. CHR ''/'' # sg) (q @ [l]))"
      by (simp add: pn)
    ultimately show ?thesis using concat_slash_shift[of "q @ [l]"] by (simp add: slashed_def)
  qed
qed

lemma tab_in_pathSet: "isTabOrNewline c \<Longrightarrow> pathSet c"
  unfolding isTabOrNewline_def
  by (elim disjE) (simp_all add: pathSet_def querySet_def c0ControlSet_def)

lemma cleanChar_not_tab: "cleanChar sch c \<Longrightarrow> \<not> isTabOrNewline c"
  using tab_in_pathSet[of c] by (simp add: cleanChar_def) blast

lemma clean_not_tab: "list_all (cleanChar sch) sg \<Longrightarrow> list_all (\<lambda>c. \<not> isTabOrNewline c) sg"
  unfolding list_all_iff using cleanChar_not_tab by blast

lemma slash_not_tab: "\<not> isTabOrNewline CHR ''/''"
  by (simp add: isTabOrNewline_def)

lemma filter_dirs:
  assumes "list_all (cleanSegment sch) dirs"
  shows "filter (\<lambda>c. \<not> isTabOrNewline c) (concat (map (\<lambda>sg. sg @ ''/'') dirs))
       = concat (map (\<lambda>sg. sg @ ''/'') dirs)"
proof -
  have "list_all (\<lambda>c. \<not> isTabOrNewline c) (concat (map (\<lambda>sg. sg @ ''/'') dirs))"
    using assms
    by (induction dirs) (simp_all add: cleanSegment_def clean_not_tab[of sch] slash_not_tab)
  then show ?thesis by (simp add: list_all_iff filter_id_conv)
qed

lemma baseDirs_clean:
  "hierarchical u \<Longrightarrow>
     list_all (cleanSegment (scheme u)) (baseDirs u) \<and> driveNormal (scheme u) (baseDirs u)"
  by (cases "url_path u")
     (auto simp: baseDirs_def hierarchical_def driveNormal_def list_all_iff
        dest: in_set_butlastD split: list.splits)

lemma set_pathname_on_base:
  assumes "hierarchical u"
  shows "set_pathname u (slashed (pathname u) @ rest)
           = u\<lparr>url_path :=
                 pathState (scheme u) (baseDirs u) [] (filter (\<lambda>c. \<not> isTabOrNewline c) rest)\<rparr>"
proof -
  have dirs: "list_all (cleanSegment (scheme u)) (baseDirs u)"
    and dn: "[] \<noteq> ([] :: string list) \<or> driveNormal (scheme u) (baseDirs u)"
    using baseDirs_clean[OF assms] by simp_all
  have "pathStart (scheme u) (host u = None) (filter (\<lambda>c. \<not> isTabOrNewline c)
          ((CHR ''/'' # concat (map (\<lambda>sg. sg @ ''/'') (baseDirs u))) @ rest))
        = pathState (scheme u) [] [] (concat (map (\<lambda>sg. sg @ ''/'') (baseDirs u))
            @ filter (\<lambda>c. \<not> isTabOrNewline c) rest)"
    using filter_dirs[OF dirs] by (simp add: pathStart_def isTabOrNewline_def isSeparator_def)
  also have "\<dots> = pathState (scheme u) ([] @ baseDirs u) []
                     (filter (\<lambda>c. \<not> isTabOrNewline c) rest)"
    by (rule pathState_dirs[OF dirs dn])
  finally show ?thesis
    using slashed_pathname[OF assms] assms by (simp add: set_pathname_def hierarchical_def)
qed

lemma buildUrl_slash:
  assumes "configuredBase this = Inr base" "URL_new P base = Inr u"
    and "substitutePath path args = CHR ''/'' # rest"
  shows "buildUrl P this path args = Inr (href (set_pathname u (slashed (pathname u) @ rest)))"
  using assms by (simp add: buildUrl_def Let_def startsWith_def slashed_def)

lemma buildUrl_opaque:
  assumes "configuredBase this = Inr base" "URL_new P base = Inr u"
    and "substitutePath path args = CHR ''/'' # rest" "opaque u"
  shows "buildUrl P this path args = Inr (href u)"
  using buildUrl_slash[OF assms(1-3)] assms(4) by (simp add: set_pathname_def)

lemma buildUrl_absolute:
  assumes "configuredBase this = Inr base" "URL_new P base = Inr u"
    and "substitutePath path args = CHR ''/'' # rest" "hierarchical u"
  shows "buildUrl P this path args =
     Inr (href (u\<lparr>url_path :=
            pathState (scheme u) (baseDirs u) [] (filter (\<lambda>c. \<not> isTabOrNewline c) rest)\<rparr>))"
  using buildUrl_slash[OF assms(1-3)] set_pathname_on_base[OF assms(4), of rest] by simp

lemma splitWhen_nonempty: "splitWhen sep s \<noteq> []"
  by (induction s) simp_all

lemma segmentEnd_not_dot:
  assumes "\<not> isDotSegment b" "sch \<noteq> ''file'' \<or> path \<noteq> []"
  shows "segmentEnd sch path b sep = path @ [b]"
  using assms by (auto simp: segmentEnd_def isDotSegment_def)

lemma pathState_segments:
  "list_all (\<lambda>sg. \<not> isDotSegment (pctEncode pathSet sg)) (tl (splitWhen (isSeparator sch) s)) \<Longrightarrow>
   \<not> isDotSegment (buffer @ pctEncode pathSet (hd (splitWhen (isSeparator sch) s))) \<Longrightarrow>
   sch \<noteq> ''file'' \<or> path \<noteq> [] \<Longrightarrow>
     pathState sch path buffer s
       = path @ (buffer @ pctEncode pathSet (hd (splitWhen (isSeparator sch) s)))
              # map (pctEncode pathSet) (tl (splitWhen (isSeparator sch) s))"
proof (induction s arbitrary: path buffer)
  case Nil
  then show ?case by (simp add: pctEncode_Nil segmentEnd_not_dot)
next
  case (Cons c cs)
  obtain g gs where sp: "splitWhen (isSeparator sch) cs = g # gs"
    using splitWhen_nonempty[of "isSeparator sch" cs] by (cases "splitWhen (isSeparator sch) cs") auto
  show ?case
  proof (cases "isSeparator sch c")
    case True
    then have b: "\<not> isDotSegment buffer" and g: "\<not> isDotSegment (pctEncode pathSet g)"
      and gs: "list_all (\<lambda>sg. \<not> isDotSegment (pctEncode pathSet sg)) gs"
      using Cons.prems sp by (simp_all add: pctEncode_Nil)
    have "pathState sch path buffer (c # cs) = pathState sch (path @ [buffer]) [] cs"
      using True segmentEnd_not_dot[OF b Cons.prems(3)] by simp
    also have "\<dots> = (path @ [buffer]) @ ([] @ pctEncode pathSet (hd (splitWhen (isSeparator sch) cs)))
                        # map (pctEncode pathSet) (tl (splitWhen (isSeparator sch) cs))"
      using g gs sp by (intro Cons.IH) simp_all
    finally show ?thesis using True sp by (simp add: pctEncode_Nil)
  next
    case False
    have e: "pctEncode pathSet (c # g) = pctEncode pathSet [c] @ pctEncode pathSet g"
      by (rule pctEncode_Cons)
    have "pathState sch path buffer (c # cs) = pathState sch path (buffer @ pctEncode pathSet [c]) cs"
      using False by simp
    also have "\<dots> = path @ ((buffer @ pctEncode pathSet [c])
                           @ pctEncode pathSet (hd (splitWhen (isSeparator sch) cs)))
                        # map (pctEncode pathSet) (tl (splitWhen (isSeparator sch) cs))"
      using Cons.prems False sp e by (intro Cons.IH) simp_all
    finally show ?thesis using False sp e by simp
  qed
qed

lemma pathState_dotFree:
  assumes "dotFree sch rest" "sch \<noteq> ''file'' \<or> dirs \<noteq> []"
  shows "pathState sch dirs [] (filter (\<lambda>c. \<not> isTabOrNewline c) rest)
           = dirs @ map (pctEncode pathSet) (requestSegments sch rest)"
proof -
  obtain g gs where sp: "requestSegments sch rest = g # gs"
    using splitWhen_nonempty[of "isSeparator sch" "filter (\<lambda>c. \<not> isTabOrNewline c) rest"]
    by (cases "requestSegments sch rest") (auto simp: requestSegments_def)
  then have "splitWhen (isSeparator sch) (filter (\<lambda>c. \<not> isTabOrNewline c) rest) = g # gs"
    by (simp add: requestSegments_def)
  moreover have "\<not> isDotSegment (pctEncode pathSet g)"
    "list_all (\<lambda>sg. \<not> isDotSegment (pctEncode pathSet sg)) gs"
    using assms(1) sp by (simp_all add: dotFree_def)
  ultimately have "pathState sch dirs [] (filter (\<lambda>c. \<not> isTabOrNewline c) rest)
      = dirs @ ([] @ pctEncode pathSet (hd (g # gs))) # map (pctEncode pathSet) (tl (g # gs))"
    using pathState_segments[of sch "filter (\<lambda>c. \<not> isTabOrNewline c) rest" "[]" dirs] assms(2)
    by simp
  then show ?thesis by (simp add: sp)
qed

lemma splitWhen_slash:
  "list_all verbatimChar s \<Longrightarrow> splitWhen (isSeparator sch) s = split CHR ''/'' s"
  by (induction s) (simp_all add: verbatimChar_def isSeparator_def)

lemma requestSegments_verbatim:
  assumes "list_all verbatimChar rest"
  shows "requestSegments sch rest = split CHR ''/'' rest"
proof -
  have "filter (\<lambda>c. \<not> isTabOrNewline c) rest = rest"
    using assms by (simp add: list_all_iff filter_id_conv verbatimChar_def)
  then show ?thesis using splitWhen_slash[OF assms] by (simp add: requestSegments_def)
qed

lemma pathname_segs:
  "segs \<noteq> [] \<Longrightarrow> concat (map (\<lambda>sg. CHR ''/'' # sg) segs) = CHR ''/'' # join ''/'' segs"
  by (induction "''/''" segs rule: join.induct) simp_all

lemma pathname_dirs_segs:
  "segs \<noteq> [] \<Longrightarrow> concat (map (\<lambda>sg. CHR ''/'' # sg) (dirs @ segs))
     = (CHR ''/'' # concat (map (\<lambda>sg. sg @ ''/'') dirs)) @ join ''/'' segs"
  by (induction dirs) (simp_all add: pathname_segs)

lemma slash_not_encoded: "\<not> pathSet CHR ''/''"
  by code_simp

lemma pctEncode_join:
  "join ''/'' (map (pctEncode pathSet) segs) = pctEncode pathSet (join ''/'' segs)"
  by (induction "''/''" segs rule: join.induct)
     (simp_all add: pctEncode_def slash_not_encoded)

lemma pctEncode_split:
  "join ''/'' (map (pctEncode pathSet) (split CHR ''/'' rest)) = pctEncode pathSet rest"
  using pctEncode_join[of "split CHR ''/'' rest"] join_split[of "CHR ''/''" rest] by simp

lemma schemeAndAuthority_path: "schemeAndAuthority (u\<lparr>url_path := p\<rparr>) = schemeAndAuthority u"
  by (cases "host u"; cases "port u") (simp_all add: schemeAndAuthority_def)

lemma searchAndHash_path: "searchAndHash (u\<lparr>url_path := p\<rparr>) = searchAndHash u"
  by (cases "query u"; cases "fragment u") (simp_all add: searchAndHash_def)

lemma href_with_host:
  assumes "host u \<noteq> None" "\<not> opaque u"
  shows "href (u\<lparr>url_path := p\<rparr>)
           = schemeAndAuthority u @ concat (map (\<lambda>sg. CHR ''/'' # sg) p) @ searchAndHash u"
  using assms by (simp add: href_def pathname_def schemeAndAuthority_path searchAndHash_path)

lemma buildUrl_dotFree:
  assumes "configuredBase this = Inr base" "URL_new P base = Inr u"
    and "substitutePath path args = CHR ''/'' # rest" "hierarchical u"
    and "dotFree (scheme u) rest" "scheme u = ''file'' \<longrightarrow> baseDirs u \<noteq> []"
  shows "buildUrl P this path args =
     Inr (href (u\<lparr>url_path :=
            baseDirs u @ map (pctEncode pathSet) (requestSegments (scheme u) rest)\<rparr>))"
proof -
  have "scheme u \<noteq> ''file'' \<or> baseDirs u \<noteq> []" using assms(6) by blast
  from pathState_dotFree[OF assms(5) this] buildUrl_absolute[OF assms(1-4)]
  show ?thesis by simp
qed

lemma buildUrl_dotFree_string:
  assumes "configuredBase this = Inr base" "URL_new P base = Inr u"
    and "substitutePath path args = CHR ''/'' # rest" "hierarchical u"
    and "dotFree (scheme u) rest" "scheme u = ''file'' \<longrightarrow> baseDirs u \<noteq> []" "host u \<noteq> None"
  shows "buildUrl P this path args =
     Inr (schemeAndAuthority u @ slashed (pathname u)
          @ join ''/'' (map (pctEncode pathSet) (requestSegments (scheme u) rest))
          @ searchAndHash u)"
proof -
  have o: "\<not> opaque u" using assms(4) by (simp add: hierarchical_def)
  have n: "map (pctEncode pathSet) (requestSegments (scheme u) rest) \<noteq> []"
    using splitWhen_nonempty[of "isSeparator (scheme u)" "filter (\<lambda>c. \<not> isTabOrNewline c) rest"]
    by (simp add: requestSegments_def)
  have "concat (map (\<lambda>sg. CHR ''/'' # sg)
           (baseDirs u @ map (pctEncode pathSet) (requestSegments (scheme u) rest)))
        = slashed (pathname u)
          @ join ''/'' (map (pctEncode pathSet) (requestSegments (scheme u) rest))"
    using pathname_dirs_segs[OF n, of "baseDirs u"] slashed_pathname[OF assms(4)] by simp
  then show ?thesis
    using buildUrl_dotFree[OF assms(1-6)] href_with_host[OF assms(7) o] by simp
qed

lemma buildUrl_verbatim_string:
  assumes "configuredBase this = Inr base" "URL_new P base = Inr u"
    and "substitutePath path args = CHR ''/'' # rest" "hierarchical u"
    and "dotFree (scheme u) rest" "scheme u = ''file'' \<longrightarrow> baseDirs u \<noteq> []" "host u \<noteq> None"
    and "list_all verbatimChar rest"
  shows "buildUrl P this path args =
     Inr (schemeAndAuthority u @ slashed (pathname u) @ pctEncode pathSet rest @ searchAndHash u)"
  using buildUrl_dotFree_string[OF assms(1-7)] requestSegments_verbatim[OF assms(8)]
    pctEncode_split[of rest]
  by simp

lemma brace_encoded: "pctEncode pathSet ''{'' = ''%7B''" "pctEncode pathSet ''}'' = ''%7D''"
  by code_simp+

lemma pctEncode_placeholder:
  "pctEncode pathSet (a @ ''{'' @ n @ ''}'' @ b)
     = pctEncode pathSet a @ ''%7B'' @ pctEncode pathSet n @ ''%7D'' @ pctEncode pathSet b"
  using brace_encoded by (simp only: pctEncode_append)

lemma URL_new_plain: "parsePlain input = Some u \<Longrightarrow> URL_new P input = Inr u"
  by (simp add: URL_new_def)

lemma URL_new_example: "URL_new P ''https://api.example.com/api'' = Inr exampleBase"
proof -
  have "parsePlain ''https://api.example.com/api'' = Some exampleBase" by code_simp
  then show ?thesis by (rule URL_new_plain)
qed

lemma buildUrl_leftover_placeholder:
  assumes "wellFormed segs" "list_all braceFree (Object_keys args)"
    and "fillAll args segs = left @ Ph n # right"
    and "configuredBase this = Inr base" "URL_new P base = Inr u" "hierarchical u"
    and "host u \<noteq> None" "scheme u = ''file'' \<longrightarrow> baseDirs u \<noteq> []"
    and "substitutePath (render segs) args = CHR ''/'' # rest"
    and "dotFree (scheme u) rest" "list_all verbatimChar rest"
  shows "buildUrl P this (render segs) args =
     Inr (schemeAndAuthority u @ slashed (pathname u)
          @ pctEncode pathSet (drop 1 (render left)) @ ''%7B'' @ pctEncode pathSet n @ ''%7D''
          @ pctEncode pathSet (render right) @ searchAndHash u)"
proof -
  have "render (fillAll args segs) = CHR ''/'' # rest"
    using assms(1,2,9) by (simp add: substitutePath_render)
  then have r: "render left @ ''{'' @ n @ ''}'' @ render right = CHR ''/'' # rest"
    by (simp add: assms(3) render_append)
  then have "render left \<noteq> []" by auto
  then obtain l where l: "render left = CHR ''/'' # l"
    using r by (cases "render left") auto
  then have "rest = drop 1 (render left) @ ''{'' @ n @ ''}'' @ render right"
    using r by simp
  then have "pctEncode pathSet rest
      = pctEncode pathSet (drop 1 (render left)) @ ''%7B'' @ pctEncode pathSet n @ ''%7D''
        @ pctEncode pathSet (render right)"
    using pctEncode_placeholder[of "drop 1 (render left)" n "render right"] by simp
  then show ?thesis
    using buildUrl_verbatim_string[OF assms(4,5,9,6,10,8,7,11)] by simp
qed

subsection \<open>Request bodies\<close>

lemma foldl_Object_assign_filter:
  "foldl Object_assign target vs
     = foldl Object_assign target (filter (\<lambda>v. \<not> isNumberOrBoolean v) vs)"
  by (induction vs arbitrary: target) (simp_all add: Object_assign_number_boolean)

lemma mergedBody_last_string:
  assumes "supplied ''body'' args ps = qs @ [p]" "map_of args (name p) = Some (JStr s)"
    and "i < length s"
  shows "map_of (mergedBody args ps) (show_nat i) = Some (JStr [s ! i])"
  using assms(1,2) Object_assign_string_lookup[OF assms(3)] by (simp add: mergedBody_def)

lemma mergedBody_only_string:
  assumes "supplied ''body'' args ps = [p]" "map_of args (name p) = Some (JStr s)"
  shows "mergedBody args ps = indexed 0 (map (\<lambda>c. JStr [c]) s)"
  using assms by (simp add: mergedBody_def Object_assign_string)

lemma indexed_empty: "indexed i xs = [] \<longleftrightarrow> xs = []"
  using indexed_keys[of i xs] by (cases xs) auto

section \<open>Properties of the tool name generator\<close>

text \<open>
  C1. Without an \<^verbatim>\<open>operationId\<close> (none, or an empty one) the tool name is the prefix, the
  lower-cased method, an underscore and the transformed path parts joined by underscores. The parts are the
  non-empty pieces of the path between slashes; a part \<^verbatim>\<open>{x}\<close> becomes \<^verbatim>\<open>by_x\<close>, and in any
  other part every character outside \<^verbatim>\<open>[A-Za-z0-9]\<close> becomes an underscore.
\<close>

theorem generateToolName_from_method_and_path:
  "operationId operation = None \<or> operationId operation = Some [] \<longrightarrow>
     generateToolName prefix method path operation =
       prefix @ toLowerCase method @ ''_'' @
       join ''_'' (map pathPart (filter (\<lambda>part. part \<noteq> []) (split CHR ''/'' path)))
     \<and> join ''/'' (split CHR ''/'' path) = path
     \<and> (\<forall>part \<in> set (split CHR ''/'' path). CHR ''/'' \<notin> set part)
     \<and> pathPart (''{'' @ x @ ''}'') = ''by_'' @ x
     \<and> (\<not> (\<exists>y. part = ''{'' @ y @ ''}'') \<longrightarrow>
          pathPart part = map (\<lambda>c. if isAlnum c then c else CHR ''_'') part)"
  using pathPart_placeholder[of x] pathPart_plain[of part] join_split[of "CHR ''/''" path]
    split_no_sep[of _ "CHR ''/''" path]
  by (simp add: generateToolName_def truthy_def)

theorem generateToolName_from_method_and_path_witness:
  "operationId noOperation = None
   \<and> generateToolName ''infra_'' ''get'' ''/v1/hosts/{name}'' noOperation
      = ''infra_get_v1_hosts_by_name''
   \<and> pathPart ''{name}'' = ''by_name''
   \<and> \<not> (\<exists>y. ''v1.2'' = ''{'' @ y @ ''}'') \<and> pathPart ''v1.2'' = ''v1_2''"
  using generateToolName_from_method_and_path
          [of noOperation "''infra_''" "''get''" "''/v1/hosts/{name}''" "''name''" "''v1.2''"]
  by (simp add: noOperation_def toLowerCase_def toLowerCase_char_def isAlnum_def pathPart_def
        startsWith_def endsWith_def slice_def)

text \<open>
  C2. With a non-empty \<^verbatim>\<open>operationId\<close> the tool name is the prefix followed by the
  identifier, whatever the method and the path are.
\<close>

theorem generateToolName_operationId:
  "operationId operation = Some ident \<and> ident \<noteq> [] \<longrightarrow>
     generateToolName prefix method path operation = prefix @ ident"
  by (simp add: generateToolName_def truthy_def)

theorem generateToolName_operationId_witness:
  "operationId (noOperation\<lparr>operationId := Some ''findPets''\<rparr>) = Some ''findPets''
   \<and> ''findPets'' \<noteq> []
   \<and> generateToolName ''petstore_'' ''get'' ''/pets''
         (noOperation\<lparr>operationId := Some ''findPets''\<rparr>) = ''petstore_findPets''
   \<and> generateToolName ''petstore_'' ''delete'' ''/v1/hosts/{name}''
         (noOperation\<lparr>operationId := Some ''findPets''\<rparr>) = ''petstore_findPets''"
  using generateToolName_operationId
          [of "noOperation\<lparr>operationId := Some ''findPets''\<rparr>" "''findPets''"
              "''petstore_''" "''get''" "''/pets''"]
        generateToolName_operationId
          [of "noOperation\<lparr>operationId := Some ''findPets''\<rparr>" "''findPets''"
              "''petstore_''" "''delete''" "''/v1/hosts/{name}''"]
  by (simp add: noOperation_def)

text \<open>
  An \<^verbatim>\<open>operationId\<close> that is the empty string is declared but falsy: the name is then
  derived from the method and the path, and is not the prefix followed by the identifier.
\<close>

theorem generateToolName_empty_operationId:
  "generateToolName ''petstore_'' ''get'' ''/pets'' (noOperation\<lparr>operationId := Some []\<rparr>)
     = ''petstore_get_pets''
   \<and> generateToolName ''petstore_'' ''get'' ''/pets'' (noOperation\<lparr>operationId := Some []\<rparr>)
     \<noteq> ''petstore_'' @ []"
  by (simp add: generateToolName_def truthy_def toLowerCase_def toLowerCase_char_def isAlnum_def
        pathPart_def startsWith_def endsWith_def slice_def noOperation_def)

section \<open>Properties of the type mapper and the tool schema builder\<close>

text \<open>
  C7. The type mapper sends \<^verbatim>\<open>integer\<close> to \<^verbatim>\<open>number\<close>, keeps \<^verbatim>\<open>boolean\<close>, \<^verbatim>\<open>array\<close> and
  \<^verbatim>\<open>object\<close>, and sends every other string to \<^verbatim>\<open>string\<close>; a parameter that declares no
  type at all is mapped to \<^verbatim>\<open>string\<close> as well. It has no failing branch.
\<close>

theorem mapSwaggerType_table:
  "mapSwaggerType ''integer'' = ''number''
   \<and> mapSwaggerType ''boolean'' = ''boolean''
   \<and> mapSwaggerType ''array'' = ''array''
   \<and> mapSwaggerType ''object'' = ''object''
   \<and> (t \<notin> {''integer'', ''boolean'', ''array'', ''object''} \<longrightarrow> mapSwaggerType t = ''string'')
   \<and> (param_type p = None \<and> param_schema_type p = None \<longrightarrow> prop_type (paramProperty p) = ''string'')"
  by (simp add: mapSwaggerType_def paramProperty_def)

theorem mapSwaggerType_table_witness:
  "''string'' \<notin> {''integer'', ''boolean'', ''array'', ''object''}
   \<and> mapSwaggerType ''string'' = ''string''
   \<and> prop_type (paramProperty \<lparr>name = ''q'', param_in = ''query'', param_type = None,
         param_schema_type = None, param_description = None, required = False\<rparr>) = ''string''"
  using mapSwaggerType_table
    [of "''string''" "\<lparr>name = ''q'', param_in = ''query'', param_type = None,
         param_schema_type = None, param_description = None, required = False\<rparr>"]
  by simp

text \<open>
  C6. The keys of the schema's properties are the names of the parameters, whatever
  their location, and the required list holds the names of the parameters flagged
  required, in parameter order. When the names are pairwise distinct, the property of a
  parameter has the type mapper's image of the declared type as its type, and as its
  description the parameter's description when that is present and non-empty and
  \<^verbatim>\<open><name> parameter\<close> otherwise.
\<close>

theorem createToolFromOperation_schema:
  "ps = (case parameters operation of None \<Rightarrow> [] | Some declared \<Rightarrow> declared) \<longrightarrow>
     set (map fst (properties (tool_inputSchema (createToolFromOperation nm method path operation))))
       = set (map name ps)
     \<and> schema_required (tool_inputSchema (createToolFromOperation nm method path operation))
       = map name (filter required ps)
     \<and> (distinct (map name ps) \<longrightarrow>
          (\<forall>p \<in> set ps.
             map_of (properties (tool_inputSchema (createToolFromOperation nm method path operation)))
               (name p)
             = Some \<lparr>prop_type = mapSwaggerType
                        (str_or (param_type p) (str_or (param_schema_type p) ''string'')),
                     prop_description =
                       (case param_description p of
                          Some d \<Rightarrow> if d \<noteq> [] then d else name p @ '' parameter''
                        | None \<Rightarrow> name p @ '' parameter'')\<rparr>))"
proof (intro impI conjI ballI)
  assume h: "ps = (case parameters operation of None \<Rightarrow> [] | Some declared \<Rightarrow> declared)"
  then have s: "tool_inputSchema (createToolFromOperation nm method path operation)
      = \<lparr>schema_type = ''object'', properties = fst (foldl addParam ([], []) ps),
         schema_required = snd (foldl addParam ([], []) ps)\<rparr>"
    by (simp add: createToolFromOperation_def Let_def)
  show "set (map fst (properties (tool_inputSchema (createToolFromOperation nm method path operation))))
       = set (map name ps)"
    unfolding s using addParam_key_set[of "([], [])" ps] by simp
  show "schema_required (tool_inputSchema (createToolFromOperation nm method path operation))
       = map name (filter required ps)"
    unfolding s by (simp add: addParam_required)
  fix p assume "distinct (map name ps)" "p \<in> set ps"
  then have "map_of (fst (foldl addParam ([], []) ps)) (name p) = Some (paramProperty p)"
    by (rule addParam_lookup)
  then show "map_of (properties (tool_inputSchema (createToolFromOperation nm method path operation)))
               (name p)
             = Some \<lparr>prop_type = mapSwaggerType
                        (str_or (param_type p) (str_or (param_schema_type p) ''string'')),
                     prop_description =
                       (case param_description p of
                          Some d \<Rightarrow> if d \<noteq> [] then d else name p @ '' parameter''
                        | None \<Rightarrow> name p @ '' parameter'')\<rparr>"
    unfolding s by (simp add: paramProperty_def split: option.splits)
qed

theorem createToolFromOperation_schema_witness:
  "[limitParam] = (case parameters (noOperation\<lparr>parameters := Some [limitParam]\<rparr>) of
                     None \<Rightarrow> [] | Some declared \<Rightarrow> declared)
   \<and> distinct (map name [limitParam])
   \<and> limitParam \<in> set [limitParam]
   \<and> map_of (properties (tool_inputSchema (createToolFromOperation ''t'' ''get'' ''/pets''
         (noOperation\<lparr>parameters := Some [limitParam]\<rparr>)))) ''limit''
       = Some \<lparr>prop_type = ''number'', prop_description = ''limit parameter''\<rparr>
   \<and> schema_required (tool_inputSchema (createToolFromOperation ''t'' ''get'' ''/pets''
         (noOperation\<lparr>parameters := Some [limitParam]\<rparr>))) = [''limit'']"
  using createToolFromOperation_schema
    [of "[limitParam]" "noOperation\<lparr>parameters := Some [limitParam]\<rparr>" "''t''" "''get''"
        "''/pets''"]
  by (simp add: limitParam_def mapSwaggerType_def noOperation_def)

text \<open>
  A description that is present but empty is replaced by the default text, so the
  property's description is not the parameter's description.
\<close>

theorem createToolFromOperation_empty_description:
  "map_option prop_description
     (map_of (properties (tool_inputSchema (createToolFromOperation ''t'' ''get'' ''/pets''
         (noOperation\<lparr>parameters := Some [limitParam\<lparr>param_description := Some []\<rparr>]\<rparr>)))) ''limit'')
   = Some ''limit parameter''
   \<and> map_option prop_description
     (map_of (properties (tool_inputSchema (createToolFromOperation ''t'' ''get'' ''/pets''
         (noOperation\<lparr>parameters := Some [limitParam\<lparr>param_description := Some []\<rparr>]\<rparr>)))) ''limit'')
   \<noteq> param_description (limitParam\<lparr>param_description := Some []\<rparr>)"
  by (simp add: createToolFromOperation_def addParam_def paramProperty_def limitParam_def Let_def
        noOperation_def)

section \<open>Properties of the request builder\<close>

text \<open>
  C3. Take a substituted path that starts with a slash and a base URL with a hierarchical
  path (every URL of the schemes \<^verbatim>\<open>http\<close> and \<^verbatim>\<open>https\<close> has one). The resolved URL is the
  base URL with the request path parsed on top of the directories of the base path. When
  the request path is free of dot segments (and, in a \<^verbatim>\<open>file\<close> URL, the base path has a
  directory), the base path is kept and the request path is appended to it: the path of
  the resolved URL consists of the directories of the base path followed by the
  percent-encoded segments of the request path, and for a base URL with a host the
  resolved URL reads: scheme and authority, the base path closed by a slash, the
  percent-encoded segments of the request path joined by slashes, the base URL's query
  and fragment. When every character of the request path is verbatim, these joined
  segments are the percent-encoded request path without its leading slash. On a base URL
  with an opaque path the assignment to \<^verbatim>\<open>pathname\<close> does nothing, and the resolved URL is
  the base URL.
\<close>

theorem buildUrl_appends_to_base_path:
  "configuredBase this = Inr base \<and> URL_new P base = Inr u
   \<and> substitutePath path args = CHR ''/'' # rest \<longrightarrow>
     (opaque u \<longrightarrow> buildUrl P this path args = Inr (href u))
     \<and> (hierarchical u \<longrightarrow>
          buildUrl P this path args =
            Inr (href (u\<lparr>url_path :=
                   pathState (scheme u) (baseDirs u) []
                     (filter (\<lambda>c. \<not> isTabOrNewline c) rest)\<rparr>))
          \<and> (dotFree (scheme u) rest \<and> (scheme u = ''file'' \<longrightarrow> baseDirs u \<noteq> []) \<longrightarrow>
               buildUrl P this path args =
                 Inr (href (u\<lparr>url_path :=
                        baseDirs u
                        @ map (pctEncode pathSet) (requestSegments (scheme u) rest)\<rparr>))
               \<and> (host u \<noteq> None \<longrightarrow>
                    buildUrl P this path args =
                      Inr (schemeAndAuthority u @ slashed (pathname u)
                           @ join ''/'' (map (pctEncode pathSet) (requestSegments (scheme u) rest))
                           @ searchAndHash u)
                    \<and> (list_all verbatimChar rest \<longrightarrow>
                         buildUrl P this path args =
                           Inr (schemeAndAuthority u @ slashed (pathname u)
                                @ pctEncode pathSet rest @ searchAndHash u)))))"
proof (intro impI conjI)
  assume h: "configuredBase this = Inr base \<and> URL_new P base = Inr u
   \<and> substitutePath path args = CHR ''/'' # rest"
  then have b: "configuredBase this = Inr base" and u: "URL_new P base = Inr u"
    and s: "substitutePath path args = CHR ''/'' # rest"
    by simp_all
  {
    assume "opaque u"
    with b u s show "buildUrl P this path args = Inr (href u)" by (rule buildUrl_opaque)
  }
  assume hi: "hierarchical u"
  from b u s hi show "buildUrl P this path args =
            Inr (href (u\<lparr>url_path :=
                   pathState (scheme u) (baseDirs u) []
                     (filter (\<lambda>c. \<not> isTabOrNewline c) rest)\<rparr>))"
    by (rule buildUrl_absolute)
  assume p: "dotFree (scheme u) rest \<and> (scheme u = ''file'' \<longrightarrow> baseDirs u \<noteq> [])"
  then have pp: "dotFree (scheme u) rest" and f: "scheme u = ''file'' \<longrightarrow> baseDirs u \<noteq> []"
    by simp_all
  from b u s hi pp f show "buildUrl P this path args =
                 Inr (href (u\<lparr>url_path :=
                        baseDirs u
                        @ map (pctEncode pathSet) (requestSegments (scheme u) rest)\<rparr>))"
    by (rule buildUrl_dotFree)
  assume o: "host u \<noteq> None"
  from b u s hi pp f o show "buildUrl P this path args =
                      Inr (schemeAndAuthority u @ slashed (pathname u)
                           @ join ''/'' (map (pctEncode pathSet) (requestSegments (scheme u) rest))
                           @ searchAndHash u)"
    by (rule buildUrl_dotFree_string)
  assume "list_all verbatimChar rest"
  with b u s hi pp f o show "buildUrl P this path args =
                           Inr (schemeAndAuthority u @ slashed (pathname u)
                                @ pctEncode pathSet rest @ searchAndHash u)"
    by (rule buildUrl_verbatim_string)
qed

theorem buildUrl_appends_to_base_path_witness:
  "configuredBase exampleServer = Inr ''https://api.example.com/api''
   \<and> URL_new examplePlatform ''https://api.example.com/api'' = Inr exampleBase
   \<and> substitutePath ''/v1/x'' [] = CHR ''/'' # ''v1/x''
   \<and> hierarchical exampleBase \<and> dotFree (scheme exampleBase) ''v1/x''
   \<and> host exampleBase \<noteq> None \<and> list_all verbatimChar ''v1/x''
   \<and> buildUrl examplePlatform exampleServer ''/v1/x'' [] = Inr ''https://api.example.com/api/v1/x''
   \<and> substitutePath backslashPath [] = CHR ''/'' # drop 1 backslashPath
   \<and> dotFree (scheme exampleBase) (drop 1 backslashPath)
   \<and> buildUrl examplePlatform exampleServer backslashPath []
       = Inr ''https://api.example.com/api/v1/x%20y''
   \<and> configuredBase localServer = Inr ''http://127.0.0.1:3000/api''
   \<and> URL_new examplePlatform ''http://127.0.0.1:3000/api'' = Inr localBase
   \<and> substitutePath ''/pets/{name}'' [(''name'', JStr ''a b'')] = CHR ''/'' # ''pets/a%20b''
   \<and> hierarchical localBase \<and> dotFree (scheme localBase) ''pets/a%20b''
   \<and> host localBase \<noteq> None \<and> list_all verbatimChar ''pets/a%20b''
   \<and> buildUrl examplePlatform localServer ''/pets/{name}'' [(''name'', JStr ''a b'')]
       = Inr ''http://127.0.0.1:3000/api/pets/a%20b''
   \<and> configuredBase mailServer = Inr ''mailto:api@example.com''
   \<and> URL_new mailPlatform ''mailto:api@example.com'' = Inr mailBase
   \<and> opaque mailBase
   \<and> buildUrl mailPlatform mailServer ''/v1/x'' [] = Inr ''mailto:api@example.com''"
proof -
  have h1: "configuredBase exampleServer = Inr ''https://api.example.com/api''
           \<and> URL_new examplePlatform ''https://api.example.com/api'' = Inr exampleBase
           \<and> substitutePath ''/v1/x'' [] = CHR ''/'' # ''v1/x''"
    by code_simp
  have i1: "hierarchical exampleBase" by code_simp
  have p1: "dotFree (scheme exampleBase) ''v1/x''
            \<and> (scheme exampleBase = ''file'' \<longrightarrow> baseDirs exampleBase \<noteq> [])"
    by code_simp
  have o1: "host exampleBase \<noteq> None" by code_simp
  have v1: "list_all verbatimChar ''v1/x''" by code_simp
  have r1: "schemeAndAuthority exampleBase @ slashed (pathname exampleBase)
            @ pctEncode pathSet ''v1/x'' @ searchAndHash exampleBase
            = ''https://api.example.com/api/v1/x''"
    by code_simp
  note T1 = buildUrl_appends_to_base_path
              [of exampleServer "''https://api.example.com/api''" examplePlatform exampleBase
                  "''/v1/x''" "[]" "''v1/x''", THEN mp, OF h1]
  have 1: "buildUrl examplePlatform exampleServer ''/v1/x'' [] = Inr ''https://api.example.com/api/v1/x''"
    using T1[THEN conjunct2, THEN mp, OF i1, THEN conjunct2, THEN mp, OF p1,
             THEN conjunct2, THEN mp, OF o1, THEN conjunct2, THEN mp, OF v1]
    unfolding r1 .
  have h4: "configuredBase exampleServer = Inr ''https://api.example.com/api''
           \<and> URL_new examplePlatform ''https://api.example.com/api'' = Inr exampleBase
           \<and> substitutePath backslashPath [] = CHR ''/'' # drop 1 backslashPath"
    by code_simp
  have p4: "dotFree (scheme exampleBase) (drop 1 backslashPath)
            \<and> (scheme exampleBase = ''file'' \<longrightarrow> baseDirs exampleBase \<noteq> [])"
    by code_simp
  have r4: "schemeAndAuthority exampleBase @ slashed (pathname exampleBase)
            @ join ''/'' (map (pctEncode pathSet)
                 (requestSegments (scheme exampleBase) (drop 1 backslashPath)))
            @ searchAndHash exampleBase
            = ''https://api.example.com/api/v1/x%20y''"
    by code_simp
  note T4 = buildUrl_appends_to_base_path
              [of exampleServer "''https://api.example.com/api''" examplePlatform exampleBase
                  backslashPath "[]" "drop 1 backslashPath", THEN mp, OF h4]
  have 4: "buildUrl examplePlatform exampleServer backslashPath []
       = Inr ''https://api.example.com/api/v1/x%20y''"
    using T4[THEN conjunct2, THEN mp, OF i1, THEN conjunct2, THEN mp, OF p4,
             THEN conjunct2, THEN mp, OF o1, THEN conjunct1]
    unfolding r4 .
  have h2: "configuredBase localServer = Inr ''http://127.0.0.1:3000/api''
           \<and> URL_new examplePlatform ''http://127.0.0.1:3000/api'' = Inr localBase
           \<and> substitutePath ''/pets/{name}'' [(''name'', JStr ''a b'')] = CHR ''/'' # ''pets/a%20b''"
    by code_simp
  have i2: "hierarchical localBase" by code_simp
  have p2: "dotFree (scheme localBase) ''pets/a%20b''
            \<and> (scheme localBase = ''file'' \<longrightarrow> baseDirs localBase \<noteq> [])"
    by code_simp
  have o2: "host localBase \<noteq> None" by code_simp
  have v2: "list_all verbatimChar ''pets/a%20b''" by code_simp
  have r2: "schemeAndAuthority localBase @ slashed (pathname localBase)
            @ pctEncode pathSet ''pets/a%20b'' @ searchAndHash localBase
            = ''http://127.0.0.1:3000/api/pets/a%20b''"
    by code_simp
  note T2 = buildUrl_appends_to_base_path
              [of localServer "''http://127.0.0.1:3000/api''" examplePlatform localBase
                  "''/pets/{name}''" "[(''name'', JStr ''a b'')]" "''pets/a%20b''", THEN mp, OF h2]
  have 2: "buildUrl examplePlatform localServer ''/pets/{name}'' [(''name'', JStr ''a b'')]
       = Inr ''http://127.0.0.1:3000/api/pets/a%20b''"
    using T2[THEN conjunct2, THEN mp, OF i2, THEN conjunct2, THEN mp, OF p2,
             THEN conjunct2, THEN mp, OF o2, THEN conjunct2, THEN mp, OF v2]
    unfolding r2 .
  have h3: "configuredBase mailServer = Inr ''mailto:api@example.com''
           \<and> URL_new mailPlatform ''mailto:api@example.com'' = Inr mailBase
           \<and> substitutePath ''/v1/x'' [] = CHR ''/'' # ''v1/x''"
    by code_simp
  have o3: "opaque mailBase" by code_simp
  have r3: "href mailBase = ''mailto:api@example.com''" by code_simp
  note T3 = buildUrl_appends_to_base_path
              [of mailServer "''mailto:api@example.com''" mailPlatform mailBase
                  "''/v1/x''" "[]" "''v1/x''", THEN mp, OF h3]
  have 3: "buildUrl mailPlatform mailServer ''/v1/x'' [] = Inr ''mailto:api@example.com''"
    using T3[THEN conjunct1, THEN mp, OF o3] unfolding r3 .
  from h1 i1 p1 o1 v1 1 h4 p4 4 h2 i2 p2 o2 v2 2 h3 o3 3 show ?thesis by blast
qed

text \<open>
  A substituted path that starts with a slash is not always appended to the base path:
  the argument value \<^verbatim>\<open>..\<close> passes \<^verbatim>\<open>encodeURIComponent\<close> unchanged, and the URL parser
  resolves the dot segment against the base path. With the base URL
  \<^verbatim>\<open>https://api.example.com/api\<close> the template \<^verbatim>\<open>/{id}\<close> resolves to the root of the host
  and \<^verbatim>\<open>/{a}/{b}/admin\<close> to \<^verbatim>\<open>/admin\<close>; the base path \<^verbatim>\<open>/api\<close> is gone.
\<close>

theorem buildUrl_dot_segment_drops_base_path:
  "configuredBase exampleServer = Inr ''https://api.example.com/api''
   \<and> substitutePath ''/{id}'' dotArgs = ''/..''
   \<and> buildUrl examplePlatform exampleServer ''/{id}'' dotArgs = Inr ''https://api.example.com/''
   \<and> substitutePath ''/{a}/{b}/admin'' twoDotArgs = ''/../../admin''
   \<and> buildUrl examplePlatform exampleServer ''/{a}/{b}/admin'' twoDotArgs
       = Inr ''https://api.example.com/admin''"
  by code_simp

text \<open>
  C9. In a well-formed path template and for argument names without braces, each key of
  the argument bag replaces only the first placeholder of its name by the percent-encoded
  value. Every further placeholder of that name stays as literal text in the substituted
  path, from which the URL is composed. In the resolved URL it is not literal text: when
  the substituted path starts with a slash, is free of dot segments and made of verbatim
  characters, and the base URL has a host and a hierarchical path, a placeholder left in
  the substituted path stands in the resolved URL as \<^verbatim>\<open>%7B\<close>, its percent-encoded name and \<^verbatim>\<open>%7D\<close>, between the percent-encoded
  text on its left and on its right.
\<close>

theorem substitutePath_first_occurrence_only:
  "wellFormed segs \<and> list_all braceFree (Object_keys args) \<longrightarrow>
     substitutePath (render segs) args = render (fillAll args segs)
     \<and> placeholders (fillAll args segs)
         = foldl (\<lambda>ps k. remove1 k ps) (placeholders segs) (Object_keys args)
     \<and> (segs = pre @ Ph k # post \<and> k \<notin> set (placeholders pre) \<and> args = [(k, v)] \<longrightarrow>
          substitutePath (render segs) args
            = render pre @ encodeURIComponent (toString v) @ render post)
     \<and> (fillAll args segs = left @ Ph n # right
          \<and> configuredBase this = Inr base \<and> URL_new P base = Inr u
          \<and> hierarchical u \<and> host u \<noteq> None \<and> (scheme u = ''file'' \<longrightarrow> baseDirs u \<noteq> [])
          \<and> substitutePath (render segs) args = CHR ''/'' # rest
          \<and> dotFree (scheme u) rest \<and> list_all verbatimChar rest \<longrightarrow>
          buildUrl P this (render segs) args =
            Inr (schemeAndAuthority u @ slashed (pathname u)
                 @ pctEncode pathSet (drop 1 (render left))
                 @ ''%7B'' @ pctEncode pathSet n @ ''%7D''
                 @ pctEncode pathSet (render right) @ searchAndHash u))"
proof (intro impI conjI)
  assume h: "wellFormed segs \<and> list_all braceFree (Object_keys args)"
  then show s: "substitutePath (render segs) args = render (fillAll args segs)"
    by (simp add: substitutePath_render)
  show "placeholders (fillAll args segs)
         = foldl (\<lambda>ps k. remove1 k ps) (placeholders segs) (Object_keys args)"
    by (simp add: fillAll_def placeholders_fill_keys)
next
  assume h: "wellFormed segs \<and> list_all braceFree (Object_keys args)"
    and k: "segs = pre @ Ph k # post \<and> k \<notin> set (placeholders pre) \<and> args = [(k, v)]"
  have "fillAll args segs = pre @ Lit (encodeURIComponent (toString v)) # post"
    using k by (simp add: fillAll_def Object_keys_def argString_def fillFirst_at)
  then show "substitutePath (render segs) args
            = render pre @ encodeURIComponent (toString v) @ render post"
    using h by (simp add: substitutePath_render render_append)
next
  assume h: "wellFormed segs \<and> list_all braceFree (Object_keys args)"
    and b: "fillAll args segs = left @ Ph n # right
          \<and> configuredBase this = Inr base \<and> URL_new P base = Inr u
          \<and> hierarchical u \<and> host u \<noteq> None \<and> (scheme u = ''file'' \<longrightarrow> baseDirs u \<noteq> [])
          \<and> substitutePath (render segs) args = CHR ''/'' # rest
          \<and> dotFree (scheme u) rest \<and> list_all verbatimChar rest"
  show "buildUrl P this (render segs) args =
            Inr (schemeAndAuthority u @ slashed (pathname u)
                 @ pctEncode pathSet (drop 1 (render left))
                 @ ''%7B'' @ pctEncode pathSet n @ ''%7D''
                 @ pctEncode pathSet (render right) @ searchAndHash u)"
    using h b by (intro buildUrl_leftover_placeholder[where base = base and rest = rest]) simp_all
qed

theorem substitutePath_first_occurrence_only_witness:
  "wellFormed dupTemplate \<and> list_all braceFree (Object_keys idArgs)
   \<and> dupTemplate = [Lit ''/a/''] @ Ph ''id'' # [Lit ''/b/'', Ph ''id'']
   \<and> ''id'' \<notin> set (placeholders [Lit ''/a/'']) \<and> idArgs = [(''id'', JNum 7)]
   \<and> render dupTemplate = ''/a/{id}/b/{id}''
   \<and> substitutePath (render dupTemplate) idArgs = ''/a/7/b/{id}''
   \<and> fillAll idArgs dupTemplate = [Lit ''/a/'', Lit ''7'', Lit ''/b/''] @ Ph ''id'' # []
   \<and> configuredBase exampleServer = Inr ''https://api.example.com/api''
   \<and> URL_new examplePlatform ''https://api.example.com/api'' = Inr exampleBase
   \<and> hierarchical exampleBase \<and> host exampleBase \<noteq> None
   \<and> dotFree (scheme exampleBase) ''a/7/b/{id}'' \<and> list_all verbatimChar ''a/7/b/{id}''
   \<and> buildUrl examplePlatform exampleServer (render dupTemplate) idArgs
       = Inr ''https://api.example.com/api/a/7/b/%7Bid%7D''"
proof -
  have w: "wellFormed dupTemplate \<and> list_all braceFree (Object_keys idArgs)"
    by code_simp
  have d: "dupTemplate = [Lit ''/a/''] @ Ph ''id'' # [Lit ''/b/'', Ph ''id'']
           \<and> ''id'' \<notin> set (placeholders [Lit ''/a/'']) \<and> idArgs = [(''id'', JNum 7)]"
    by (simp add: dupTemplate_def idArgs_def)
  have r: "render dupTemplate = ''/a/{id}/b/{id}''"
    by code_simp
  have e: "render [Lit ''/a/''] @ encodeURIComponent (toString (JNum 7))
             @ render [Lit ''/b/'', Ph ''id''] = ''/a/7/b/{id}''"
    by code_simp
  have f: "fillAll idArgs dupTemplate = [Lit ''/a/'', Lit ''7'', Lit ''/b/''] @ Ph ''id'' # []"
    by code_simp
  have b: "configuredBase exampleServer = Inr ''https://api.example.com/api''"
    by code_simp
  have u: "URL_new examplePlatform ''https://api.example.com/api'' = Inr exampleBase"
    by code_simp
  have i: "hierarchical exampleBase" by code_simp
  have o: "host exampleBase \<noteq> None" by code_simp
  have n: "scheme exampleBase = ''file'' \<longrightarrow> baseDirs exampleBase \<noteq> []" by code_simp
  have p: "dotFree (scheme exampleBase) ''a/7/b/{id}''" by code_simp
  have v: "list_all verbatimChar ''a/7/b/{id}''" by code_simp
  have g: "schemeAndAuthority exampleBase @ slashed (pathname exampleBase)
             @ pctEncode pathSet (drop 1 (render [Lit ''/a/'', Lit ''7'', Lit ''/b/'']))
             @ ''%7B'' @ pctEncode pathSet ''id'' @ ''%7D''
             @ pctEncode pathSet (render []) @ searchAndHash exampleBase
           = ''https://api.example.com/api/a/7/b/%7Bid%7D''"
    by code_simp
  note T = substitutePath_first_occurrence_only
             [of dupTemplate idArgs "[Lit ''/a/'']" "''id''" "[Lit ''/b/'', Ph ''id'']" "JNum 7"
                 "[Lit ''/a/'', Lit ''7'', Lit ''/b/'']" "''id''" "[]"
                 exampleServer "''https://api.example.com/api''" examplePlatform exampleBase
                 "''a/7/b/{id}''",
              THEN mp, OF w]
  have s: "substitutePath (render dupTemplate) idArgs = ''/a/7/b/{id}''"
    using T[THEN conjunct2, THEN conjunct2, THEN conjunct1, THEN mp, OF d] e by (rule trans)
  have s': "substitutePath (render dupTemplate) idArgs = CHR ''/'' # ''a/7/b/{id}''"
    using s by simp
  have "buildUrl examplePlatform exampleServer (render dupTemplate) idArgs
       = Inr ''https://api.example.com/api/a/7/b/%7Bid%7D''"
    using T[THEN conjunct2, THEN conjunct2, THEN conjunct2, THEN mp,
            OF conjI[OF f conjI[OF b conjI[OF u conjI[OF i conjI[OF o conjI[OF n conjI[OF s' conjI[OF p v]]]]]]]]]
    unfolding g .
  with w d r s f b u i o p v show ?thesis by blast
qed

text \<open>
  The second occurrence of a placeholder does not appear as literal text in the resolved
  URL: its braces are percent-encoded.
\<close>

theorem buildUrl_second_occurrence_encoded:
  "substitutePath ''/a/{id}/b/{id}'' idArgs = ''/a/7/b/{id}''
   \<and> buildUrl examplePlatform exampleServer ''/a/{id}/b/{id}'' idArgs
     = Inr ''https://api.example.com/api/a/7/b/%7Bid%7D''
   \<and> indexOf ''https://api.example.com/api/a/7/b/%7Bid%7D'' ''{id}'' = None"
  by code_simp

text \<open>
  C5. Take a tool built from an operation whose path template is well formed, with
  placeholders of pairwise distinct names that all appear in the schema's required list,
  and an argument bag that supplies every required name. Then the substituted path
  contains no brace, and the resolved URL is the one composed from it. When no argument
  name contains a brace, the substituted path is the template with every placeholder
  replaced by the percent-encoded value of its argument.
\<close>

theorem buildUrl_fills_required_placeholders:
  "wellFormed segs \<and> distinct (placeholders segs)
   \<and> tool = createToolFromOperation nm method (render segs) operation
   \<and> set (placeholders segs) \<subseteq> set (schema_required (tool_inputSchema tool))
   \<and> set (schema_required (tool_inputSchema tool)) \<subseteq> set (Object_keys args) \<longrightarrow>
     braceFree (substitutePath (tool_path tool) args)
     \<and> buildUrl P this (tool_path tool) args
         = buildUrl P this (substitutePath (tool_path tool) args) []
     \<and> (list_all braceFree (Object_keys args) \<longrightarrow>
          substitutePath (tool_path tool) args = render (fillEvery args segs))"
proof (intro impI conjI)
  assume h: "wellFormed segs \<and> distinct (placeholders segs)
   \<and> tool = createToolFromOperation nm method (render segs) operation
   \<and> set (placeholders segs) \<subseteq> set (schema_required (tool_inputSchema tool))
   \<and> set (schema_required (tool_inputSchema tool)) \<subseteq> set (Object_keys args)"
  then have p: "tool_path tool = render segs" by (simp add: createTool_fields)
  have k: "set (placeholders segs) \<subseteq> set (Object_keys args)" using h by blast
  show "braceFree (substitutePath (tool_path tool) args)"
    unfolding p using h k by (intro substitutePath_braceFree) simp_all
  show "buildUrl P this (tool_path tool) args
         = buildUrl P this (substitutePath (tool_path tool) args) []"
    by (rule buildUrl_via_substitutePath)
  assume a: "list_all braceFree (Object_keys args)"
  have "fillAll args segs = fillEvery args segs" using h k by (simp add: fillAll_every)
  then show "substitutePath (tool_path tool) args = render (fillEvery args segs)"
    using h p a by (simp add: substitutePath_render)
qed

theorem buildUrl_fills_required_placeholders_witness:
  "wellFormed petTemplate \<and> distinct (placeholders petTemplate)
   \<and> getPetByIdTool = createToolFromOperation ''petstore_getPetById'' ''get''
        (render petTemplate) (noOperation\<lparr>parameters := Some [idParam]\<rparr>)
   \<and> set (placeholders petTemplate) \<subseteq> set (schema_required (tool_inputSchema getPetByIdTool))
   \<and> set (schema_required (tool_inputSchema getPetByIdTool)) \<subseteq> set (Object_keys idArgs)
   \<and> list_all braceFree (Object_keys idArgs)
   \<and> substitutePath (tool_path getPetByIdTool) idArgs = ''/pets/7''
   \<and> braceFree (substitutePath (tool_path getPetByIdTool) idArgs)
   \<and> buildUrl examplePlatform exampleServer (tool_path getPetByIdTool) idArgs
       = Inr ''https://api.example.com/api/pets/7''"
proof -
  have r: "render petTemplate = ''/pets/{id}''"
    by code_simp
  have h: "wellFormed petTemplate \<and> distinct (placeholders petTemplate)
   \<and> getPetByIdTool = createToolFromOperation ''petstore_getPetById'' ''get''
        (render petTemplate) (noOperation\<lparr>parameters := Some [idParam]\<rparr>)
   \<and> set (placeholders petTemplate) \<subseteq> set (schema_required (tool_inputSchema getPetByIdTool))
   \<and> set (schema_required (tool_inputSchema getPetByIdTool)) \<subseteq> set (Object_keys idArgs)"
  proof (intro conjI)
    show "wellFormed petTemplate" by code_simp
    show "distinct (placeholders petTemplate)" by code_simp
    show "getPetByIdTool = createToolFromOperation ''petstore_getPetById'' ''get''
        (render petTemplate) (noOperation\<lparr>parameters := Some [idParam]\<rparr>)"
      unfolding r by (simp add: getPetByIdTool_def)
    show "set (placeholders petTemplate) \<subseteq> set (schema_required (tool_inputSchema getPetByIdTool))"
      by code_simp
    show "set (schema_required (tool_inputSchema getPetByIdTool)) \<subseteq> set (Object_keys idArgs)"
      by code_simp
  qed
  have a: "list_all braceFree (Object_keys idArgs)"
    by code_simp
  have f: "render (fillEvery idArgs petTemplate) = ''/pets/7''"
    by code_simp
  have b: "buildUrl examplePlatform exampleServer ''/pets/7'' [] = Inr ''https://api.example.com/api/pets/7''"
    by code_simp
  note T = buildUrl_fills_required_placeholders
             [of petTemplate getPetByIdTool "''petstore_getPetById''" "''get''"
                 "noOperation\<lparr>parameters := Some [idParam]\<rparr>" idArgs examplePlatform exampleServer,
              THEN mp, OF h]
  have 1: "substitutePath (tool_path getPetByIdTool) idArgs = ''/pets/7''"
    using T[THEN conjunct2, THEN conjunct2, THEN mp, OF a] f by (rule trans)
  have 2: "braceFree (substitutePath (tool_path getPetByIdTool) idArgs)"
    by (rule T[THEN conjunct1])
  have 3: "buildUrl examplePlatform exampleServer (tool_path getPetByIdTool) idArgs
       = Inr ''https://api.example.com/api/pets/7''"
    using T[THEN conjunct2, THEN conjunct1] b unfolding 1 by (rule trans)
  from h a 1 2 3 show ?thesis by blast
qed

text \<open>
  An operation need not declare the parameter of a placeholder of its path: then the
  required list is empty, the empty argument bag supplies every required name, and the
  placeholder is not substituted. It reaches the resolved URL percent-encoded.
\<close>

theorem buildUrl_undeclared_placeholder:
  "schema_required (tool_inputSchema getPetTool) = []
   \<and> substitutePath (tool_path getPetTool) [] = ''/pets/{id}''
   \<and> buildUrl examplePlatform exampleServer (tool_path getPetTool) []
       = Inr ''https://api.example.com/api/pets/%7Bid%7D''"
  by code_simp

text \<open>
  C8. A built request always carries the query mapping collected from the supplied
  query parameters, possibly empty. When the body object merged from the supplied body
  parameters has a field, the request carries that object and the JSON content-type
  header; when it has none, the request carries neither.
\<close>

theorem buildRequest_body_headers_query:
  "buildRequest P this tool args = Inr rc \<longrightarrow>
     req_params rc = collectedQuery args (tool_parameters tool)
     \<and> (mergedBody args (tool_parameters tool) \<noteq> [] \<longrightarrow>
          req_data rc = Some (mergedBody args (tool_parameters tool))
          \<and> req_headers rc = Some [(''Content-Type'', ''application/json'')])
     \<and> (mergedBody args (tool_parameters tool) = [] \<longrightarrow>
          req_data rc = None \<and> req_headers rc = None)"
proof
  assume "buildRequest P this tool args = Inr rc"
  from buildRequest_Inr[OF this] show "req_params rc = collectedQuery args (tool_parameters tool)
     \<and> (mergedBody args (tool_parameters tool) \<noteq> [] \<longrightarrow>
          req_data rc = Some (mergedBody args (tool_parameters tool))
          \<and> req_headers rc = Some [(''Content-Type'', ''application/json'')])
     \<and> (mergedBody args (tool_parameters tool) = [] \<longrightarrow>
          req_data rc = None \<and> req_headers rc = None)"
    by auto
qed

theorem buildRequest_body_headers_query_witness:
  "buildRequest examplePlatform exampleServer petTool petArgs = Inr petRequest
   \<and> mergedBody petArgs (tool_parameters petTool) = [(''name'', JStr ''Fluffy'')]
   \<and> collectedQuery petArgs (tool_parameters petTool) = []
   \<and> req_params petRequest = []
   \<and> req_data petRequest = Some [(''name'', JStr ''Fluffy'')]
   \<and> req_headers petRequest = Some [(''Content-Type'', ''application/json'')]"
proof -
  have b: "buildRequest examplePlatform exampleServer petTool petArgs = Inr petRequest"
    by code_simp
  have m: "mergedBody petArgs (tool_parameters petTool) = [(''name'', JStr ''Fluffy'')]"
    by code_simp
  have q: "collectedQuery petArgs (tool_parameters petTool) = []"
    by code_simp
  from buildRequest_body_headers_query[of examplePlatform exampleServer petTool petArgs petRequest] b m q
  show ?thesis by simp
qed

text \<open>
  C10. Body values are merged field by field, so a supplied value that is not an object
  does not become the request body. A number or a boolean contributes no field: the body
  of a built request is the one merged from the supplied body values that are neither
  numbers nor booleans, and when that object has no field (so when every supplied body
  value is a number or a boolean) the request is built without a body and without the
  content-type header. A string contributes its characters, one field per character
  under the keys \<^verbatim>\<open>0\<close>, \<^verbatim>\<open>1\<close>, ...: when the last supplied body value is a string, the
  request carries a body with these fields and the JSON content-type header, and when a
  non-empty string is the only supplied body value, the body of the request consists of
  them.
\<close>

theorem Object_assign_non_object_values:
  "Object_assign target (JNum n) = target
   \<and> Object_assign target (JBool b) = target
   \<and> Object_assign [] (JStr s) = indexed 0 (map (\<lambda>c. JStr [c]) s)
   \<and> (i < length s \<longrightarrow>
        map_of (Object_assign target (JStr s)) (show_nat i) = Some (JStr [s ! i]))
   \<and> (buildRequest P this tool args = Inr rc
        \<and> list_all (\<lambda>p. isNumberOrBoolean (the (map_of args (name p))))
             (supplied ''body'' args (tool_parameters tool))
      \<longrightarrow> req_data rc = None \<and> req_headers rc = None)
   \<and> (buildRequest P this tool args = Inr rc \<longrightarrow>
        (let others = filter (\<lambda>v. \<not> isNumberOrBoolean v)
                        (map (\<lambda>p. the (map_of args (name p)))
                           (supplied ''body'' args (tool_parameters tool)));
             body = foldl Object_assign [] others
         in if body = [] then req_data rc = None \<and> req_headers rc = None
            else req_data rc = Some body
                 \<and> req_headers rc = Some [(''Content-Type'', ''application/json'')]))
   \<and> (buildRequest P this tool args = Inr rc
        \<and> supplied ''body'' args (tool_parameters tool) = ps @ [p]
        \<and> map_of args (name p) = Some (JStr s) \<and> i < length s \<longrightarrow>
        req_data rc = Some (mergedBody args (tool_parameters tool))
        \<and> map_of (mergedBody args (tool_parameters tool)) (show_nat i) = Some (JStr [s ! i])
        \<and> req_headers rc = Some [(''Content-Type'', ''application/json'')])
   \<and> (buildRequest P this tool args = Inr rc
        \<and> supplied ''body'' args (tool_parameters tool) = [p]
        \<and> map_of args (name p) = Some (JStr s) \<and> s \<noteq> [] \<longrightarrow>
        req_data rc = Some (indexed 0 (map (\<lambda>c. JStr [c]) s))
        \<and> req_headers rc = Some [(''Content-Type'', ''application/json'')])"
proof (intro conjI impI)
  show "Object_assign target (JNum n) = target" "Object_assign target (JBool b) = target"
    by (simp_all add: Object_assign_number_boolean isNumberOrBoolean_def)
  show "Object_assign [] (JStr s) = indexed 0 (map (\<lambda>c. JStr [c]) s)"
    by (rule Object_assign_string)
next
  assume "i < length s"
  then show "map_of (Object_assign target (JStr s)) (show_nat i) = Some (JStr [s ! i])"
    by (rule Object_assign_string_lookup)
next
  assume h: "buildRequest P this tool args = Inr rc
        \<and> list_all (\<lambda>p. isNumberOrBoolean (the (map_of args (name p))))
             (supplied ''body'' args (tool_parameters tool))"
  then have "list_all isNumberOrBoolean
     (map (\<lambda>p. the (map_of args (name p))) (supplied ''body'' args (tool_parameters tool)))"
    by (simp add: list_all_iff)
  then have "mergedBody args (tool_parameters tool) = []"
    by (simp add: mergedBody_def foldl_Object_assign_number_boolean)
  with buildRequest_Inr[of P this tool args rc] h
  show "req_data rc = None" "req_headers rc = None" by auto
next
  assume h: "buildRequest P this tool args = Inr rc"
  have m: "mergedBody args (tool_parameters tool)
      = foldl Object_assign [] (filter (\<lambda>v. \<not> isNumberOrBoolean v)
          (map (\<lambda>p. the (map_of args (name p))) (supplied ''body'' args (tool_parameters tool))))"
    unfolding mergedBody_def by (rule foldl_Object_assign_filter)
  from buildRequest_Inr[OF h]
  show "let others = filter (\<lambda>v. \<not> isNumberOrBoolean v)
                        (map (\<lambda>p. the (map_of args (name p)))
                           (supplied ''body'' args (tool_parameters tool)));
             body = foldl Object_assign [] others
         in if body = [] then req_data rc = None \<and> req_headers rc = None
            else req_data rc = Some body
                 \<and> req_headers rc = Some [(''Content-Type'', ''application/json'')]"
    unfolding Let_def m[symmetric] by auto
next
  assume h: "buildRequest P this tool args = Inr rc
        \<and> supplied ''body'' args (tool_parameters tool) = ps @ [p]
        \<and> map_of args (name p) = Some (JStr s) \<and> i < length s"
  then have l: "map_of (mergedBody args (tool_parameters tool)) (show_nat i) = Some (JStr [s ! i])"
    by (intro mergedBody_last_string[where qs = ps and p = p]) simp_all
  then have "mergedBody args (tool_parameters tool) \<noteq> []" by auto
  with buildRequest_Inr[of P this tool args rc] h l
  show "req_data rc = Some (mergedBody args (tool_parameters tool))"
    "map_of (mergedBody args (tool_parameters tool)) (show_nat i) = Some (JStr [s ! i])"
    "req_headers rc = Some [(''Content-Type'', ''application/json'')]"
    by auto
next
  assume h: "buildRequest P this tool args = Inr rc
        \<and> supplied ''body'' args (tool_parameters tool) = [p]
        \<and> map_of args (name p) = Some (JStr s) \<and> s \<noteq> []"
  then have m: "mergedBody args (tool_parameters tool) = indexed 0 (map (\<lambda>c. JStr [c]) s)"
    by (intro mergedBody_only_string[where p = p]) simp_all
  have "indexed 0 (map (\<lambda>c. JStr [c]) s) \<noteq> []"
    using h by (simp add: indexed_empty)
  with buildRequest_Inr[of P this tool args rc] h m
  show "req_data rc = Some (indexed 0 (map (\<lambda>c. JStr [c]) s))"
    "req_headers rc = Some [(''Content-Type'', ''application/json'')]"
    by auto
qed

theorem Object_assign_non_object_values_witness:
  "Object_assign [] (JStr ''ab'') = [(''0'', JStr ''a''), (''1'', JStr ''b'')]
   \<and> (1::nat) < length ''ab''
   \<and> map_of (Object_assign [] (JStr ''ab'')) ''1'' = Some (JStr ''b'')
   \<and> buildRequest examplePlatform exampleServer petTool numberBody = Inr emptyRequest
   \<and> list_all (\<lambda>p. isNumberOrBoolean (the (map_of numberBody (name p))))
         (supplied ''body'' numberBody (tool_parameters petTool))
   \<and> foldl Object_assign []
         (filter (\<lambda>v. \<not> isNumberOrBoolean v)
            (map (\<lambda>p. the (map_of numberBody (name p)))
               (supplied ''body'' numberBody (tool_parameters petTool)))) = []
   \<and> req_data emptyRequest = None \<and> req_headers emptyRequest = None
   \<and> buildRequest examplePlatform exampleServer petTool stringBody = Inr stringBodyRequest
   \<and> foldl Object_assign []
         (filter (\<lambda>v. \<not> isNumberOrBoolean v)
            (map (\<lambda>p. the (map_of stringBody (name p)))
               (supplied ''body'' stringBody (tool_parameters petTool))))
       = [(''0'', JStr ''a''), (''1'', JStr ''b'')]
   \<and> supplied ''body'' stringBody (tool_parameters petTool) = [] @ [petParam]
   \<and> map_of stringBody (name petParam) = Some (JStr ''ab'') \<and> ''ab'' \<noteq> []
   \<and> req_data stringBodyRequest = Some [(''0'', JStr ''a''), (''1'', JStr ''b'')]
   \<and> map_of (mergedBody stringBody (tool_parameters petTool)) ''1'' = Some (JStr ''b'')
   \<and> req_headers stringBodyRequest = Some [(''Content-Type'', ''application/json'')]"
proof -
  have b: "buildRequest examplePlatform exampleServer petTool numberBody = Inr emptyRequest"
    by code_simp
  have l: "list_all (\<lambda>p. isNumberOrBoolean (the (map_of numberBody (name p))))
         (supplied ''body'' numberBody (tool_parameters petTool))"
    by code_simp
  have i: "indexed 0 (map (\<lambda>c. JStr [c]) ''ab'') = [(''0'', JStr ''a''), (''1'', JStr ''b'')]"
    by code_simp
  have n: "show_nat 1 = ''1''" "''ab'' ! 1 = CHR ''b''" "(1::nat) < length ''ab''"
    by code_simp+
  note N = Object_assign_non_object_values
             [of "[]" 5 True "''ab''" 1 examplePlatform exampleServer petTool numberBody
                 emptyRequest "[]" petParam]
  have 1: "Object_assign [] (JStr ''ab'') = [(''0'', JStr ''a''), (''1'', JStr ''b'')]"
    using N[THEN conjunct2, THEN conjunct2, THEN conjunct1] i by (rule trans)
  have 2: "map_of (Object_assign [] (JStr ''ab'')) ''1'' = Some (JStr ''b'')"
    using N[THEN conjunct2, THEN conjunct2, THEN conjunct2, THEN conjunct1, THEN mp, OF n(3)]
    unfolding n .
  have 3: "req_data emptyRequest = None \<and> req_headers emptyRequest = None"
    using N[THEN conjunct2, THEN conjunct2, THEN conjunct2, THEN conjunct2, THEN conjunct1,
            THEN mp, OF conjI[OF b l]] .
  have k: "foldl Object_assign []
         (filter (\<lambda>v. \<not> isNumberOrBoolean v)
            (map (\<lambda>p. the (map_of numberBody (name p)))
               (supplied ''body'' numberBody (tool_parameters petTool)))) = []"
    by code_simp
  have 8: "req_data emptyRequest = None \<and> req_headers emptyRequest = None"
    using N[THEN conjunct2, THEN conjunct2, THEN conjunct2, THEN conjunct2, THEN conjunct2,
            THEN conjunct1, THEN mp, OF b]
    unfolding Let_def k by simp
  have c: "buildRequest examplePlatform exampleServer petTool stringBody = Inr stringBodyRequest"
    by code_simp
  have s: "supplied ''body'' stringBody (tool_parameters petTool) = [] @ [petParam]"
    by code_simp
  have s': "supplied ''body'' stringBody (tool_parameters petTool) = [petParam]"
    by code_simp
  have m: "map_of stringBody (name petParam) = Some (JStr ''ab'')"
    by code_simp
  have e: "''ab'' \<noteq> []" by simp
  note S = Object_assign_non_object_values
             [of "[]" 5 True "''ab''" 1 examplePlatform exampleServer petTool stringBody
                 stringBodyRequest "[]" petParam]
  have 4: "req_data stringBodyRequest = Some (mergedBody stringBody (tool_parameters petTool))
        \<and> map_of (mergedBody stringBody (tool_parameters petTool)) (show_nat 1)
            = Some (JStr [''ab'' ! 1])
        \<and> req_headers stringBodyRequest = Some [(''Content-Type'', ''application/json'')]"
    using S[THEN conjunct2, THEN conjunct2, THEN conjunct2, THEN conjunct2, THEN conjunct2,
            THEN conjunct2, THEN conjunct1, THEN mp, OF conjI[OF c conjI[OF s conjI[OF m n(3)]]]] .
  have 5: "req_data stringBodyRequest = Some (indexed 0 (map (\<lambda>c. JStr [c]) ''ab''))
        \<and> req_headers stringBodyRequest = Some [(''Content-Type'', ''application/json'')]"
    using S[THEN conjunct2, THEN conjunct2, THEN conjunct2, THEN conjunct2, THEN conjunct2,
            THEN conjunct2, THEN conjunct2, THEN mp, OF conjI[OF c conjI[OF s' conjI[OF m e]]]] .
  have 6: "req_data stringBodyRequest = Some [(''0'', JStr ''a''), (''1'', JStr ''b'')]"
    using 5[THEN conjunct1] unfolding i .
  have k': "foldl Object_assign []
         (filter (\<lambda>v. \<not> isNumberOrBoolean v)
            (map (\<lambda>p. the (map_of stringBody (name p)))
               (supplied ''body'' stringBody (tool_parameters petTool))))
       = [(''0'', JStr ''a''), (''1'', JStr ''b'')]"
    by code_simp
  have 9: "req_data stringBodyRequest = Some [(''0'', JStr ''a''), (''1'', JStr ''b'')]
        \<and> req_headers stringBodyRequest = Some [(''Content-Type'', ''application/json'')]"
    using S[THEN conjunct2, THEN conjunct2, THEN conjunct2, THEN conjunct2, THEN conjunct2,
            THEN conjunct1, THEN mp, OF c]
    unfolding Let_def k' by simp
  have 7: "map_of (mergedBody stringBody (tool_parameters petTool)) ''1'' = Some (JStr ''b'')"
    using 4[THEN conjunct2, THEN conjunct1] unfolding n .
  from 1 n(3) 2 b l k 3 8 c k' s m e 6 7 4 9 show ?thesis by blast
qed

section \<open>Properties of the invocation proxy\<close>

text \<open>
  C4. \<^verbatim>\<open>callApiTool\<close> always returns a result. After a successful exchange the result
  is the stringified response payload as text, with no error flag. When the request cannot
  be built or the exchange fails, the result is the text
  \<^verbatim>\<open>Error calling <tool name>: <detail>\<close> flagged as an error, where the detail is
  \<^verbatim>\<open>HTTP <status>: <payload>\<close> when the failure carries a response and the failure's
  message otherwise.
\<close>

theorem callApiTool_never_throws:
  "(\<exists>r. callApiTool request stringify P this tool args = Inr r)
   \<and> (\<forall>rc resp. buildRequest P this tool args = Inr rc \<and> request rc = Inr resp \<longrightarrow>
         callApiTool request stringify P this tool args
           = Inr \<lparr>content = [\<lparr>content_type = ''text'', content_text = stringify (resp_data resp)\<rparr>],
                  isError = None\<rparr>)
   \<and> (\<forall>rc e. buildRequest P this tool args = Inl e
              \<or> (buildRequest P this tool args = Inr rc \<and> request rc = Inl e) \<longrightarrow>
         callApiTool request stringify P this tool args
           = Inr \<lparr>content = [\<lparr>content_type = ''text'',
                    content_text = ''Error calling '' @ tool_name tool @ '': '' @
                      (case response e of
                         Some r \<Rightarrow> ''HTTP '' @ show_nat (status r) @ '': '' @ stringify (resp_data r)
                       | None \<Rightarrow> message e)\<rparr>],
                  isError = Some True\<rparr>)"
  by (auto simp: callApiTool_def try_catch_def textResult_def errorMessage_def
        split: sum.splits option.splits)

theorem callApiTool_never_throws_witness:
  "buildRequest examplePlatform exampleServer petTool petArgs = Inr petRequest
   \<and> okClient petRequest = Inr \<lparr>status = 200, resp_data = JNum 42\<rparr>
   \<and> callApiTool okClient toString examplePlatform exampleServer petTool petArgs
       = Inr \<lparr>content = [\<lparr>content_type = ''text'', content_text = ''42''\<rparr>], isError = None\<rparr>
   \<and> notFoundClient petRequest
       = Inl \<lparr>message = ''Request failed with status code 404'',
              response = Some \<lparr>status = 404, resp_data = JNull\<rparr>\<rparr>
   \<and> callApiTool notFoundClient toString examplePlatform exampleServer petTool petArgs
       = Inr \<lparr>content = [\<lparr>content_type = ''text'',
                  content_text = ''Error calling petstore_addPet: HTTP 404: null''\<rparr>],
              isError = Some True\<rparr>"
proof -
  have b: "buildRequest examplePlatform exampleServer petTool petArgs = Inr petRequest"
    by code_simp
  have ok: "okClient petRequest = Inr \<lparr>status = 200, resp_data = JNum 42\<rparr>"
    by (simp add: okClient_def)
  have nf: "notFoundClient petRequest
       = Inl \<lparr>message = ''Request failed with status code 404'',
              response = Some \<lparr>status = 404, resp_data = JNull\<rparr>\<rparr>"
    by (simp add: notFoundClient_def)
  have t: "toString (JNum 42) = ''42''" "show_nat 404 = ''404''"
    "tool_name petTool = ''petstore_addPet''"
    by code_simp+
  have 1: "callApiTool okClient toString examplePlatform exampleServer petTool petArgs
       = Inr \<lparr>content = [\<lparr>content_type = ''text'', content_text = ''42''\<rparr>], isError = None\<rparr>"
    using callApiTool_never_throws[of okClient toString examplePlatform exampleServer petTool petArgs] b ok t
    by simp
  have 2: "callApiTool notFoundClient toString examplePlatform exampleServer petTool petArgs
       = Inr \<lparr>content = [\<lparr>content_type = ''text'',
                  content_text = ''Error calling petstore_addPet: HTTP 404: null''\<rparr>],
              isError = Some True\<rparr>"
    using callApiTool_never_throws[of notFoundClient toString examplePlatform exampleServer petTool petArgs] b nf t
    by simp
  from b ok nf 1 2 show ?thesis by simp
qed

end
